theory Spec2Isabelle
  imports Complex_Main
begin

section \<open>JavaScript numbers\<close>

text \<open>
  A JavaScript \<open>number\<close> is an IEEE 754 double. A finite double is the real number it
  denotes; the three special values are kept apart. An arithmetic operation on finite
  doubles gives the exact real result rounded to the nearest double, ties to the even
  mantissa, and an infinity when the rounded result is beyond the largest double. The
  sign of zero is not modelled.
\<close>

datatype number = Fin real | PInf | NInf | NaN

text \<open>Rounding to the nearest integer, ties to the even one.\<close>

definition round_half_even :: "real \<Rightarrow> int" where
  "round_half_even q =
     (let f = \<lfloor>q\<rfloor>; d = q - of_int f
      in if d < 1 / 2 then f
         else if 1 / 2 < d then f + 1
         else if even f then f else f + 1)"

text \<open>The exponent \<open>e\<close> with \<open>2 ^ e \<le> |x| < 2 ^ (e + 1)\<close>, and \<open>- 1022\<close> for the
  subnormal numbers below.\<close>

definition binade :: "real \<Rightarrow> int" where
  "binade x = max \<lfloor>log 2 \<bar>x\<bar>\<rfloor> (- 1022)"

text \<open>The double nearest to a real: a multiple of the unit in the last of the 53
  mantissa bits of its binade, or an infinity from \<open>2 ^ 1024\<close> on.\<close>

definition to_double :: "real \<Rightarrow> number" where
  "to_double x =
     (if x = 0 then Fin 0
      else
        (let u = 2 powr of_int (binade x - 52);
             y = of_int (round_half_even (x / u)) * u
         in if 2 ^ 1024 \<le> \<bar>y\<bar> then (if 0 < x then PInf else NInf) else Fin y))"

fun js_neg :: "number \<Rightarrow> number" where
  "js_neg (Fin a) = Fin (- a)"
| "js_neg PInf = NInf"
| "js_neg NInf = PInf"
| "js_neg NaN = NaN"

fun js_add :: "number \<Rightarrow> number \<Rightarrow> number" where
  "js_add NaN _ = NaN"
| "js_add _ NaN = NaN"
| "js_add (Fin a) (Fin b) = to_double (a + b)"
| "js_add PInf NInf = NaN"
| "js_add NInf PInf = NaN"
| "js_add PInf _ = PInf"
| "js_add NInf _ = NInf"
| "js_add _ PInf = PInf"
| "js_add _ NInf = NInf"

definition js_sub :: "number \<Rightarrow> number \<Rightarrow> number" where
  "js_sub a b = js_add a (js_neg b)"

fun js_mul :: "number \<Rightarrow> number \<Rightarrow> number" where
  "js_mul NaN _ = NaN"
| "js_mul _ NaN = NaN"
| "js_mul (Fin a) (Fin b) = to_double (a * b)"
| "js_mul (Fin a) PInf = (if a = 0 then NaN else if 0 < a then PInf else NInf)"
| "js_mul (Fin a) NInf = (if a = 0 then NaN else if 0 < a then NInf else PInf)"
| "js_mul PInf (Fin b) = (if b = 0 then NaN else if 0 < b then PInf else NInf)"
| "js_mul NInf (Fin b) = (if b = 0 then NaN else if 0 < b then NInf else PInf)"
| "js_mul PInf PInf = PInf"
| "js_mul PInf NInf = NInf"
| "js_mul NInf PInf = NInf"
| "js_mul NInf NInf = PInf"

fun js_div :: "number \<Rightarrow> number \<Rightarrow> number" where
  "js_div NaN _ = NaN"
| "js_div _ NaN = NaN"
| "js_div (Fin a) (Fin b) =
     (if b \<noteq> 0 then to_double (a / b)
      else if a = 0 then NaN
      else if 0 < a then PInf else NInf)"
| "js_div (Fin a) PInf = Fin 0"
| "js_div (Fin a) NInf = Fin 0"
| "js_div PInf (Fin b) = (if 0 \<le> b then PInf else NInf)"
| "js_div NInf (Fin b) = (if 0 \<le> b then NInf else PInf)"
| "js_div _ _ = NaN"

text \<open>\<open>a < b\<close>: false as soon as one side is NaN.\<close>

fun js_lt :: "number \<Rightarrow> number \<Rightarrow> bool" where
  "js_lt NaN _ = False"
| "js_lt _ NaN = False"
| "js_lt (Fin a) (Fin b) = (a < b)"
| "js_lt NInf NInf = False"
| "js_lt NInf _ = True"
| "js_lt PInf _ = False"
| "js_lt (Fin a) PInf = True"
| "js_lt (Fin a) NInf = False"

text \<open>\<open>a === b\<close> on numbers: NaN is not equal to itself.\<close>

definition js_seq :: "number \<Rightarrow> number \<Rightarrow> bool" where
  "js_seq a b = (a \<noteq> NaN \<and> a = b)"

definition Math_max :: "number \<Rightarrow> number \<Rightarrow> number" where
  "Math_max a b = (if a = NaN \<or> b = NaN then NaN else if js_lt a b then b else a)"

definition Math_min :: "number \<Rightarrow> number \<Rightarrow> number" where
  "Math_min a b = (if a = NaN \<or> b = NaN then NaN else if js_lt b a then b else a)"

text \<open>\<open>Math.log2\<close>, taken to return the double nearest to the logarithm.\<close>

fun Math_log2 :: "number \<Rightarrow> number" where
  "Math_log2 (Fin a) =
     (if 0 < a then to_double (log 2 a) else if a = 0 then NInf else NaN)"
| "Math_log2 PInf = PInf"
| "Math_log2 NInf = NaN"
| "Math_log2 NaN = NaN"

section \<open>The player: data\<close>

text \<open>
  Objects that the source compares by identity or mutates through a closure (tracks,
  play states, buffer source nodes) live in lists that only grow; a reference is an
  index, and a new object takes the index \<open>length\<close> of its list.
\<close>

definition deref :: "'a list \<Rightarrow> nat \<Rightarrow> 'a option" where
  "deref xs i = (if i < length xs then Some (xs ! i) else None)"

datatype event_type =
    Canplay | Canplaythrough | Ended | Error | Loadeddata | Play | Pause
  | Ratechange | Seeked | Timeupdate | Volumechange

text \<open>What \<open>dispatchEvent\<close> has been given: a \<open>PreciseAudioEvent\<close>, or the
  \<open>ErrorEvent\<close> of \<open>dispatchError\<close> with the error it carries.\<close>

datatype dispatched = PreciseAudioEvent event_type | ErrorEvent string

type_synonym blob = nat

datatype track_source = Src string | File blob

record audio_buffer =
  buffer_duration :: number

datatype play_state =
    Paused number
  | Playing nat bool number

text \<open>\<open>Paused positionMillis\<close>; \<open>Playing source suppressEndedEvent
  effectiveStartTimeMillis\<close>, the source a reference to a buffer source node.\<close>

record track_data =
  buffer :: audio_buffer
  state :: nat

record track =
  source :: track_source
  data :: "track_data option"

datatype route = ToGain | ViaPitchShift number

text \<open>An \<open>AudioBufferSourceNode\<close> as the audio context holds it: what \<open>playFrom\<close> has
  configured, the context time at which \<open>start(0, offset)\<close> started it and the offset
  (both in seconds), whether \<open>stop\<close> was called, whether its \<open>ended\<close> event has been
  delivered, and the play states its \<open>ended\<close> listeners closed over. The context is
  taken to accept every call.\<close>

record buffer_source =
  src_playbackRate :: number
  src_route :: route
  src_buffer :: audio_buffer
  src_startedAt :: number
  src_offset :: number
  src_stopped :: bool
  src_ended :: bool
  src_onended :: "nat list"

datatype context_state = Suspended | Running

record precise_audio =
  ctx_currentTime :: number
  ctx_state :: context_state
  gain_value :: number
  animationFrameRequest :: "nat option"
  frame_pending :: "nat option"
  frame_next :: nat
  playbackRate :: number
  adjustPitchWithPlaybackRate :: bool
  volume :: number
  muted :: bool
  track :: "nat option"
  tracks :: "track list"
  play_states :: "play_state list"
  sources :: "buffer_source list"
  in_flight :: "nat list"
  event_log :: "dispatched list"

text \<open>
  \<open>ctx_currentTime\<close> (seconds) and \<open>ctx_state\<close> are the \<open>AudioContext\<close>;
  \<open>frame_pending\<close> and \<open>frame_next\<close> are the browser's side of
  \<open>requestAnimationFrame\<close>; \<open>in_flight\<close> lists the tracks whose load promise has not
  settled; \<open>event_log\<close> is the log of everything dispatched, oldest first. The remaining
  fields are the fields of the class, \<open>tracks\<close>, \<open>play_states\<close> and \<open>sources\<close> being
  the three stores.
\<close>

definition new_PreciseAudio :: "number \<Rightarrow> context_state \<Rightarrow> precise_audio" where
  "new_PreciseAudio t0 c =
     \<lparr> ctx_currentTime = t0, ctx_state = c, gain_value = Fin 1,
       animationFrameRequest = None, frame_pending = None, frame_next = 0,
       playbackRate = Fin 1, adjustPitchWithPlaybackRate = True,
       volume = Fin 1, muted = False,
       track = None, tracks = [], play_states = [], sources = [],
       in_flight = [], event_log = [] \<rparr>"

section \<open>The player: private helpers\<close>

text \<open>\<open>this.track\<close> dereferenced, \<open>this.track?.data\<close>, the reference
  \<open>this.track?.data?.state\<close> and the object behind it; \<open>?.\<close> is \<open>Option.bind\<close>.\<close>

definition cur_track :: "precise_audio \<Rightarrow> track option" where
  "cur_track s = Option.bind (track s) (deref (tracks s))"

definition cur_data :: "precise_audio \<Rightarrow> track_data option" where
  "cur_data s = Option.bind (cur_track s) data"

definition cur_state_ref :: "precise_audio \<Rightarrow> nat option" where
  "cur_state_ref s = map_option state (cur_data s)"

definition cur_state :: "precise_audio \<Rightarrow> play_state option" where
  "cur_state s = Option.bind (cur_state_ref s) (deref (play_states s))"

text \<open>\<open>this.track.data.state = { ... }\<close>: a new play state object becomes the state of
  the current track's data.\<close>

definition assign_state :: "play_state \<Rightarrow> precise_audio \<Rightarrow> precise_audio" where
  "assign_state ps s =
     (case track s of
        None \<Rightarrow> s
      | Some t \<Rightarrow>
          (case deref (tracks s) t of
             None \<Rightarrow> s
           | Some tr \<Rightarrow>
               (case data tr of
                  None \<Rightarrow> s
                | Some d \<Rightarrow>
                    s\<lparr>play_states := play_states s @ [ps],
                      tracks :=
                        (tracks s)[t := tr\<lparr>data :=
                           Some (d\<lparr>state := length (play_states s)\<rparr>)\<rparr>]\<rparr>)))"

definition updateGain :: "precise_audio \<Rightarrow> precise_audio" where
  "updateGain s = s\<lparr>gain_value := (if muted s then Fin 0 else volume s)\<rparr>"

definition sendEvent :: "event_type \<Rightarrow> precise_audio \<Rightarrow> precise_audio" where
  "sendEvent eventType s = s\<lparr>event_log := event_log s @ [PreciseAudioEvent eventType]\<rparr>"

definition dispatchError :: "string \<Rightarrow> precise_audio \<Rightarrow> precise_audio" where
  "dispatchError e s = s\<lparr>event_log := event_log s @ [ErrorEvent e]\<rparr>"

text \<open>\<open>stopWithoutEnding\<close> takes the playing state by reference: it sets the flag on that
  object and calls \<open>stop\<close> on its source.\<close>

definition stopWithoutEnding :: "nat \<Rightarrow> precise_audio \<Rightarrow> precise_audio" where
  "stopWithoutEnding st s =
     (case deref (play_states s) st of
        Some (Playing sn suppress eff) \<Rightarrow>
          s\<lparr>play_states := (play_states s)[st := Playing sn True eff],
            sources :=
              (case deref (sources s) sn of
                 None \<Rightarrow> sources s
               | Some b \<Rightarrow> (sources s)[sn := b\<lparr>src_stopped := True\<rparr>])\<rparr>
      | _ \<Rightarrow> s)"

definition is_playing :: "precise_audio \<Rightarrow> bool" where
  "is_playing s = (case cur_state s of Some (Playing sn suppress eff) \<Rightarrow> True | _ \<Rightarrow> False)"

text \<open>\<open>scheduleTimeUpdated\<close> cancels the request it holds and makes a new one. The
  request cancelled is the only one that can be pending, so afterwards the new request
  is the pending one whether or not there was one to cancel.\<close>

definition scheduleTimeUpdated :: "precise_audio \<Rightarrow> precise_audio" where
  "scheduleTimeUpdated s =
     s\<lparr>animationFrameRequest := Some (frame_next s),
       frame_pending := Some (frame_next s),
       frame_next := Suc (frame_next s)\<rparr>"

definition timeUpdated :: "precise_audio \<Rightarrow> precise_audio" where
  "timeUpdated s =
     (let s1 = sendEvent Timeupdate s
      in if is_playing s1 then scheduleTimeUpdated s1 else s1)"

text \<open>The listener \<open>createTrackEndedListener state\<close> returns, run on the engine.\<close>

definition createTrackEndedListener :: "nat \<Rightarrow> precise_audio \<Rightarrow> precise_audio" where
  "createTrackEndedListener st s =
     (if cur_state_ref s \<noteq> Some st then s
      else
        (case deref (play_states s) st of
           Some (Playing sn suppress eff) \<Rightarrow>
             (if \<not> suppress then
                assign_state (Paused (Fin 0)) (sendEvent Ended s)
              else s)
         | _ \<Rightarrow> s))"

section \<open>The player: loading\<close>

text \<open>
  \<open>loadFile\<close> awaits the file reader and \<open>decodeAudioData\<close>. The model takes what the two
  produced as an argument (\<open>Inl\<close> the error of a rejection, \<open>Inr\<close> the decoded buffer) and
  runs the rest of the function on the engine as it is when the promise settles. The
  first component of the result is how the promise of \<open>loadFile\<close> settles.
\<close>

definition loadFile ::
  "nat \<Rightarrow> string + audio_buffer \<Rightarrow> precise_audio \<Rightarrow> (string + unit) \<times> precise_audio" where
  "loadFile t loaded s =
     (case loaded of
        Inl e \<Rightarrow> (Inl e, s)
      | Inr buf \<Rightarrow>
          (Inr (),
           if track s = Some t then
             (case deref (tracks s) t of
                None \<Rightarrow> s
              | Some tr \<Rightarrow>
                  sendEvent Timeupdate (sendEvent Canplaythrough (sendEvent Canplay
                    (sendEvent Loadeddata
                      (s\<lparr>tracks := (tracks s)[t := tr\<lparr>data :=
                             Some \<lparr>buffer = buf, state = length (play_states s)\<rparr>\<rparr>],
                         play_states := play_states s @ [Paused (Fin 0)]\<rparr>)))))
           else s))"

text \<open>The fragment both load entry points start with: stop the source of a playing track.\<close>

definition stopIfPlaying :: "precise_audio \<Rightarrow> precise_audio" where
  "stopIfPlaying s =
     (case cur_state_ref s of
        None \<Rightarrow> s
      | Some st \<Rightarrow> (if is_playing s then stopWithoutEnding st s else s))"

text \<open>\<open>loadAudioFile\<close> up to its \<open>await\<close>: the new track's reference, which the
  continuation closes over, and the engine.\<close>

definition loadAudioFile :: "blob \<Rightarrow> precise_audio \<Rightarrow> nat \<times> precise_audio" where
  "loadAudioFile file s =
     (let s1 = stopIfPlaying s; t = length (tracks s1)
      in (t, s1\<lparr>track := Some t,
                tracks := tracks s1 @ [\<lparr>source = File file, data = None\<rparr>],
                in_flight := in_flight s1 @ [t]\<rparr>))"

text \<open>\<open>loadAudioFile\<close> from its \<open>await\<close> on: the \<open>catch\<close> handler dispatches the error
  and throws it again, so the promise returned to the caller rejects with it.\<close>

definition loadAudioFile_settled ::
  "nat \<Rightarrow> string + audio_buffer \<Rightarrow> precise_audio \<Rightarrow> (string + unit) \<times> precise_audio" where
  "loadAudioFile_settled t loaded s =
     (case loadFile t loaded s of
        (Inl e, s1) \<Rightarrow> (Inl e, dispatchError e s1)
      | (Inr u, s1) \<Rightarrow> (Inr u, s1))"

definition src :: "precise_audio \<Rightarrow> string" where
  "src s =
     (case cur_track s of
        None \<Rightarrow> []
      | Some tr \<Rightarrow> (case source tr of Src u \<Rightarrow> u | File f \<Rightarrow> []))"

definition set_src :: "string \<Rightarrow> precise_audio \<Rightarrow> precise_audio" where
  "set_src u s =
     (let s1 = stopIfPlaying s
      in if u = [] then s1\<lparr>track := None\<rparr>
         else
           (let t = length (tracks s1)
            in s1\<lparr>track := Some t,
                  tracks := tracks s1 @ [\<lparr>source = Src u, data = None\<rparr>],
                  in_flight := in_flight s1 @ [t]\<rparr>))"

text \<open>The promise chain of the \<open>src\<close> setter (\<open>fetch\<close>, \<open>blob\<close>, \<open>loadFile\<close>, then
  \<open>catch\<close>): the handler dispatches the error and returns, so the chain fulfils.\<close>

definition set_src_settled ::
  "nat \<Rightarrow> string + audio_buffer \<Rightarrow> precise_audio \<Rightarrow> (string + unit) \<times> precise_audio" where
  "set_src_settled t loaded s =
     (case loadFile t loaded s of
        (Inl e, s1) \<Rightarrow> (Inr (), dispatchError e s1)
      | (Inr u, s1) \<Rightarrow> (Inr u, s1))"

section \<open>The player: volume\<close>

definition set_volume :: "number \<Rightarrow> precise_audio \<Rightarrow> precise_audio" where
  "set_volume vol s =
     (let v = Math_max (Fin 0) (Math_min (Fin 1) vol)
      in if \<not> js_seq v (volume s)
         then sendEvent Volumechange (updateGain (s\<lparr>volume := v\<rparr>))
         else s)"

definition set_muted :: "bool \<Rightarrow> precise_audio \<Rightarrow> precise_audio" where
  "set_muted m s =
     (if m \<noteq> muted s
      then sendEvent Volumechange (updateGain (s\<lparr>muted := m\<rparr>))
      else s)"

section \<open>The player: playback\<close>

text \<open>\<open>context.resume()\<close> when the context is suspended; the context is taken to be
  running from then on.\<close>

definition resumeIfSuspended :: "precise_audio \<Rightarrow> precise_audio" where
  "resumeIfSuspended s = (if ctx_state s = Suspended then s\<lparr>ctx_state := Running\<rparr> else s)"

definition nowMillis :: "precise_audio \<Rightarrow> number" where
  "nowMillis s = js_mul (ctx_currentTime s) (Fin 1000)"

definition playFrom :: "number \<Rightarrow> precise_audio \<Rightarrow> precise_audio" where
  "playFrom positionMillis s =
     (case cur_data s of
        None \<Rightarrow> s
      | Some d \<Rightarrow>
          (let node =
                 \<lparr> src_playbackRate = playbackRate s,
                   src_route =
                     (if \<not> js_seq (playbackRate s) (Fin 1) \<and> adjustPitchWithPlaybackRate s
                      then ViaPitchShift
                             (js_mul (Fin 12) (Math_log2 (js_div (Fin 1) (playbackRate s))))
                      else ToGain),
                   src_buffer = buffer d,
                   src_startedAt = ctx_currentTime s,
                   src_offset = js_div positionMillis (Fin 1000),
                   src_stopped = False,
                   src_ended = False,
                   src_onended = [length (play_states s)] \<rparr>;
               st = Playing (length (sources s)) False
                      (js_sub (nowMillis s) (js_div positionMillis (playbackRate s)))
           in scheduleTimeUpdated
                (assign_state st (s\<lparr>sources := sources s @ [node]\<rparr>))))"

definition play :: "precise_audio \<Rightarrow> precise_audio" where
  "play s =
     (let s1 = resumeIfSuspended s
      in case cur_state s1 of
           Some (Paused positionMillis) \<Rightarrow> sendEvent Play (playFrom positionMillis s1)
         | _ \<Rightarrow> s1)"

definition pause :: "precise_audio \<Rightarrow> precise_audio" where
  "pause s =
     (let s1 = resumeIfSuspended s
      in case cur_state_ref s1 of
           None \<Rightarrow> s1
         | Some st \<Rightarrow>
             (case deref (play_states s1) st of
                Some (Playing sn suppress eff) \<Rightarrow>
                  sendEvent Pause
                    (assign_state
                       (Paused (js_mul (js_sub (nowMillis s1) eff) (playbackRate s1)))
                       (stopWithoutEnding st s1))
              | _ \<Rightarrow> s1))"

definition paused :: "precise_audio \<Rightarrow> bool" where
  "paused s = (\<not> is_playing s)"

definition currentTimeMillis :: "precise_audio \<Rightarrow> number" where
  "currentTimeMillis s =
     (case cur_data s of
        None \<Rightarrow> Fin 0
      | Some d \<Rightarrow>
          (case deref (play_states s) (state d) of
             Some (Paused positionMillis) \<Rightarrow> positionMillis
           | Some (Playing sn suppress eff) \<Rightarrow>
               js_mul (js_sub (nowMillis s) eff) (playbackRate s)
           | None \<Rightarrow> Fin 0))"

definition currentTime :: "precise_audio \<Rightarrow> number" where
  "currentTime s = js_div (currentTimeMillis s) (Fin 1000)"

definition set_currentTime :: "number \<Rightarrow> precise_audio \<Rightarrow> precise_audio" where
  "set_currentTime positionSeconds s =
     (case cur_data s of
        None \<Rightarrow> s
      | Some d \<Rightarrow>
          (let positionMillis = js_mul positionSeconds (Fin 1000)
           in sendEvent Seeked
                (case deref (play_states s) (state d) of
                   Some (Paused p) \<Rightarrow>
                     sendEvent Timeupdate
                       (s\<lparr>play_states := (play_states s)[state d := Paused positionMillis]\<rparr>)
                 | Some (Playing sn suppress eff) \<Rightarrow>
                     playFrom positionMillis (stopWithoutEnding (state d) s)
                 | None \<Rightarrow> s)))"

definition changeConfiguration ::
  "(precise_audio \<Rightarrow> precise_audio) \<Rightarrow> precise_audio \<Rightarrow> precise_audio" where
  "changeConfiguration callback s =
     (if is_playing s then play (callback (pause s)) else callback s)"

definition set_adjustPitchWithPlaybackRate :: "bool \<Rightarrow> precise_audio \<Rightarrow> precise_audio" where
  "set_adjustPitchWithPlaybackRate adjust s =
     changeConfiguration (\<lambda>s'. s'\<lparr>adjustPitchWithPlaybackRate := adjust\<rparr>) s"

definition set_playbackRate :: "number \<Rightarrow> precise_audio \<Rightarrow> precise_audio" where
  "set_playbackRate rate s =
     sendEvent Ratechange (changeConfiguration (\<lambda>s'. s'\<lparr>playbackRate := rate\<rparr>) s)"

definition duration :: "precise_audio \<Rightarrow> number" where
  "duration s =
     (case cur_data s of None \<Rightarrow> Fin 0 | Some d \<Rightarrow> buffer_duration (buffer d))"

definition durationMillis :: "precise_audio \<Rightarrow> number" where
  "durationMillis s = js_mul (duration s) (Fin 1000)"

section \<open>The player and its environment as a machine\<close>

text \<open>
  Everything runs on one event loop, so a history of the engine is a sequence of steps:
  a call of a public method or setter, or a callback of the environment (a pending load
  settles, the context delivers \<open>ended\<close> at a source, an animation frame fires, the
  context clock shows a new time). A load settles once, while it is in flight; a source
  delivers \<open>ended\<close> once, whether it ran to its end or was stopped. In these steps
  no listener of the application calls the engine while an event is being dispatched;
  such a listener is the subject of the definitions that follow the machine.
\<close>

datatype op =
    Call_loadAudioFile blob
  | Assign_src string
  | Settle nat "string + audio_buffer"
  | Assign_volume number
  | Assign_muted bool
  | Call_play
  | Call_pause
  | Assign_currentTime number
  | Assign_adjustPitchWithPlaybackRate bool
  | Assign_playbackRate number
  | Source_ended nat
  | Animation_frame
  | Clock number

definition settle :: "nat \<Rightarrow> string + audio_buffer \<Rightarrow> precise_audio \<Rightarrow> precise_audio" where
  "settle t loaded s =
     (if t \<in> set (in_flight s) then
        (let s0 = s\<lparr>in_flight := removeAll t (in_flight s)\<rparr>
         in case deref (tracks s0) t of
              None \<Rightarrow> s0
            | Some tr \<Rightarrow>
                (case source tr of
                   File f \<Rightarrow> snd (loadAudioFile_settled t loaded s0)
                 | Src u \<Rightarrow> snd (set_src_settled t loaded s0)))
      else s)"

definition source_ended :: "nat \<Rightarrow> precise_audio \<Rightarrow> precise_audio" where
  "source_ended r s =
     (case deref (sources s) r of
        None \<Rightarrow> s
      | Some b \<Rightarrow>
          (if src_ended b then s
           else fold createTrackEndedListener (src_onended b)
                  (s\<lparr>sources := (sources s)[r := b\<lparr>src_ended := True\<rparr>]\<rparr>)))"

definition animation_frame :: "precise_audio \<Rightarrow> precise_audio" where
  "animation_frame s =
     (case frame_pending s of
        None \<Rightarrow> s
      | Some h \<Rightarrow> timeUpdated (s\<lparr>frame_pending := None\<rparr>))"

fun step :: "op \<Rightarrow> precise_audio \<Rightarrow> precise_audio" where
  "step (Call_loadAudioFile f) s = snd (loadAudioFile f s)"
| "step (Assign_src u) s = set_src u s"
| "step (Settle t loaded) s = settle t loaded s"
| "step (Assign_volume v) s = set_volume v s"
| "step (Assign_muted m) s = set_muted m s"
| "step Call_play s = play s"
| "step Call_pause s = pause s"
| "step (Assign_currentTime x) s = set_currentTime x s"
| "step (Assign_adjustPitchWithPlaybackRate a) s = set_adjustPitchWithPlaybackRate a s"
| "step (Assign_playbackRate r) s = set_playbackRate r s"
| "step (Source_ended r) s = source_ended r s"
| "step Animation_frame s = animation_frame s"
| "step (Clock t) s = s\<lparr>ctx_currentTime := t\<rparr>"

fun run :: "op list \<Rightarrow> precise_audio \<Rightarrow> precise_audio" where
  "run [] s = s"
| "run (x # xs) s = run xs (step x s)"

text \<open>
  An application listens to the events of the engine with \<open>addEventListener\<close>, and
  \<open>dispatchEvent\<close> runs its listeners before it returns: a listener that calls the
  engine does so in the middle of the method that dispatched the event. For the
  \<open>ended\<close> event the definitions below take the application's listener as a function
  on the engine: \<open>sendEvent_with\<close> logs the event and runs the listener, and the
  listener of the source and the delivery of \<open>ended\<close> at a source are the ones above
  with that dispatch in the place of \<open>sendEvent\<close>.
\<close>

definition sendEvent_with ::
  "(precise_audio \<Rightarrow> precise_audio) \<Rightarrow> event_type \<Rightarrow> precise_audio \<Rightarrow> precise_audio" where
  "sendEvent_with listener eventType s = listener (sendEvent eventType s)"

definition createTrackEndedListener_with ::
  "(precise_audio \<Rightarrow> precise_audio) \<Rightarrow> nat \<Rightarrow> precise_audio \<Rightarrow> precise_audio" where
  "createTrackEndedListener_with listener st s =
     (if cur_state_ref s \<noteq> Some st then s
      else
        (case deref (play_states s) st of
           Some (Playing sn suppress eff) \<Rightarrow>
             (if \<not> suppress then
                assign_state (Paused (Fin 0)) (sendEvent_with listener Ended s)
              else s)
         | _ \<Rightarrow> s))"

definition source_ended_with ::
  "(precise_audio \<Rightarrow> precise_audio) \<Rightarrow> nat \<Rightarrow> precise_audio \<Rightarrow> precise_audio" where
  "source_ended_with listener r s =
     (case deref (sources s) r of
        None \<Rightarrow> s
      | Some b \<Rightarrow>
          (if src_ended b then s
           else fold (createTrackEndedListener_with listener) (src_onended b)
                  (s\<lparr>sources := (sources s)[r := b\<lparr>src_ended := True\<rparr>]\<rparr>)))"

text \<open>A source is active from \<open>start\<close> until \<open>stop\<close> is called or it has ended.\<close>

definition src_active :: "buffer_source \<Rightarrow> bool" where
  "src_active b = (\<not> src_stopped b \<and> \<not> src_ended b)"

definition active_sources :: "precise_audio \<Rightarrow> nat list" where
  "active_sources s = filter (\<lambda>i. src_active (sources s ! i)) [0..<length (sources s)]"

text \<open>The range the volume is meant to stay in, as the documentation of the getter
  gives it: from 0.0 (silent) to 1.0 (loudest).\<close>

fun clamp01 :: "number \<Rightarrow> number" where
  "clamp01 (Fin x) = Fin (max 0 (min 1 x))"
| "clamp01 PInf = Fin 1"
| "clamp01 NInf = Fin 0"
| "clamp01 NaN = NaN"

section \<open>Engines used as examples\<close>

text \<open>A fresh engine on which a ten second file has been loaded.\<close>

definition loaded_engine :: precise_audio where
  "loaded_engine =
     run [Call_loadAudioFile 7, Settle 0 (Inr \<lparr>buffer_duration = Fin 10\<rparr>)]
       (new_PreciseAudio (Fin 0) Running)"

text \<open>The same engine playing, two seconds of context time after \<open>play\<close>.\<close>

definition playing_engine :: precise_audio where
  "playing_engine = run [Call_play, Clock (Fin 2)] loaded_engine"

text \<open>The playing engine when the ten seconds of the file have been played.\<close>

definition played_engine :: precise_audio where
  "played_engine = step (Clock (Fin 10)) playing_engine"

text \<open>A fresh engine on which a second file was requested before the first had loaded.\<close>

definition two_loads :: precise_audio where
  "two_loads =
     run [Call_loadAudioFile 7, Call_loadAudioFile 8] (new_PreciseAudio (Fin 0) Running)"

text \<open>A fresh engine on which \<open>src\<close> was assigned a second time before the first
  address had been fetched.\<close>

definition two_srcs :: precise_audio where
  "two_srcs = run [Assign_src ''a.mp3'', Assign_src ''b.mp3''] (new_PreciseAudio (Fin 0) Running)"

section \<open>Cue files: shifting the selected events\<close>

text \<open>
  The cue file types come from a module of the repository that is not part of this
  development; they are taken as the functions below use them. A layer has a kind,
  settings and a list of events, an event a timestamp and its states; what kinds,
  settings and states are plays no part here, so they are type parameters. A selection
  is the list of its events, each naming a layer and an index in that layer. An index
  that is out of range yields \<open>undefined\<close>, and reading a property of
  \<open>undefined\<close> throws a \<open>TypeError\<close>.
\<close>

record 'v cue_file_event =
  timestampMillis :: number
  states :: 'v

record ('k, 'c, 'v) cue_file_layer =
  kind :: 'k
  settings :: 'c
  events :: "'v cue_file_event list"

record ('k, 'c, 'v) cue_file =
  lengthMillis :: number
  layers :: "('k, 'c, 'v) cue_file_layer list"

record selected_event =
  layer :: nat
  index :: nat

datatype js_error = TypeError

text \<open>\<open>buildUpSelectionSet\<close>: from a layer to the set of its selected indices.\<close>

definition buildUpSelectionSet :: "selected_event list \<Rightarrow> (nat \<rightharpoonup> nat set)" where
  "buildUpSelectionSet selection =
     fold (\<lambda>e m. m(layer e \<mapsto>
                     insert (index e) (case m (layer e) of None \<Rightarrow> {} | Some S \<Rightarrow> S)))
       selection Map.empty"

definition modifyEvents ::
  "('k, 'c, 'v) cue_file \<Rightarrow> selected_event list \<Rightarrow>
   ('v cue_file_event \<Rightarrow> ('k, 'c, 'v) cue_file_layer \<Rightarrow> 'v cue_file_event) \<Rightarrow>
   ('k, 'c, 'v) cue_file" where
  "modifyEvents cueFile selection f =
     (let selectedEvents = buildUpSelectionSet selection;
          newLayers =
            map (\<lambda>(i, l).
                   case selectedEvents i of
                     None \<Rightarrow> l
                   | Some layerSet \<Rightarrow>
                       \<lparr> kind = kind l, settings = settings l,
                         events =
                           map (\<lambda>(j, e). if j \<in> layerSet then f e l else e)
                             (enumerate 0 (events l)) \<rparr>)
              (enumerate 0 (layers cueFile))
      in \<lparr> lengthMillis = lengthMillis cueFile, layers = newLayers \<rparr>)"

text \<open>The inner function \<open>events()\<close> followed by the read of each timestamp.\<close>

fun selected_timestamps ::
  "('k, 'c, 'v) cue_file \<Rightarrow> selected_event list \<Rightarrow> js_error + number list" where
  "selected_timestamps cueFile [] = Inr []"
| "selected_timestamps cueFile (e # es) =
     (case deref (layers cueFile) (layer e) of
        None \<Rightarrow> Inl TypeError
      | Some l \<Rightarrow>
          (case deref (events l) (index e) of
             None \<Rightarrow> Inl TypeError
           | Some ev \<Rightarrow>
               (case selected_timestamps cueFile es of
                  Inl err \<Rightarrow> Inl err
                | Inr ts \<Rightarrow> Inr (timestampMillis ev # ts))))"

text \<open>\<open>Math.min.apply(null, ts)\<close>: \<open>Infinity\<close> for no argument.\<close>

definition Math_min_apply :: "number list \<Rightarrow> number" where
  "Math_min_apply ts = fold (\<lambda>x acc. Math_min acc x) ts PInf"

text \<open>The guard \<open>shift < 0.1 && shift > 0.1\<close>, the literal being the double nearest
  to one tenth.\<close>

definition small_shift_guard :: "number \<Rightarrow> bool" where
  "small_shift_guard shift =
     (js_lt shift (to_double (1 / 10)) \<and> js_lt (to_double (1 / 10)) shift)"

definition shiftEvent :: "number \<Rightarrow> 'v cue_file_event \<Rightarrow> 'v cue_file_event" where
  "shiftEvent shift e =
     \<lparr> timestampMillis = js_add (timestampMillis e) shift, states = states e \<rparr>"

definition updateStartTimeForSelectedEvents ::
  "('k, 'c, 'v) cue_file \<Rightarrow> selected_event list \<Rightarrow> number \<Rightarrow>
   js_error + ('k, 'c, 'v) cue_file" where
  "updateStartTimeForSelectedEvents cueFile selection newStartTime =
     (if length selection = 0 then Inr cueFile
      else
        (case selected_timestamps cueFile selection of
           Inl err \<Rightarrow> Inl err
         | Inr ts \<Rightarrow>
             (let start = Math_min_apply ts;
                  newStartTime' = Math_max (Fin 0) newStartTime
              in if js_seq start newStartTime' then Inr cueFile
                 else
                   (let shift = js_sub newStartTime' start
                    in if small_shift_guard shift then Inr cueFile
                       else Inr (modifyEvents cueFile selection
                                   (\<lambda>e l. shiftEvent shift e))))))"

text \<open>Whether the event at index \<open>j\<close> of layer \<open>i\<close> is selected.\<close>

definition is_selected :: "selected_event list \<Rightarrow> nat \<Rightarrow> nat \<Rightarrow> bool" where
  "is_selected selection i j = (\<exists>e \<in> set selection. layer e = i \<and> index e = j)"

text \<open>A file of one layer with events at 100, 250 and 400 ms, the first two selected.\<close>

definition example_file :: "(string, unit, unit) cue_file" where
  "example_file =
     \<lparr> lengthMillis = Fin 1000,
       layers =
         [\<lparr> kind = ''percussion'', settings = (),
            events =
              [\<lparr>timestampMillis = Fin 100, states = ()\<rparr>,
               \<lparr>timestampMillis = Fin 250, states = ()\<rparr>,
               \<lparr>timestampMillis = Fin 400, states = ()\<rparr>] \<rparr>] \<rparr>"

definition example_selection :: "selected_event list" where
  "example_selection = [\<lparr>layer = 0, index = 1\<rparr>, \<lparr>layer = 0, index = 0\<rparr>]"

section \<open>Invariants of the machine\<close>

text \<open>At most one source is active, and it is the source of the playing state.\<close>

definition one_active_source :: "precise_audio \<Rightarrow> bool" where
  "one_active_source s =
     (active_sources s = (case cur_state s of Some (Playing r q e) \<Rightarrow> [r] | _ \<Rightarrow> []))"

text \<open>The anchor of the playing state is the one \<open>playFrom\<close> computes at the engine's
  current rate, and the running source was started for it: for some position \<open>p\<close> in
  milliseconds, the source was started from the offset \<open>p / 1000\<close> and the anchor is the
  time it was started at, in milliseconds, less \<open>p\<close> divided by the current rate; and
  the source runs at that rate.\<close>

definition anchor_consistent :: "precise_audio \<Rightarrow> bool" where
  "anchor_consistent s =
     (case cur_state s of
        Some (Playing r q e) \<Rightarrow>
          (case deref (sources s) r of
             None \<Rightarrow> False
           | Some b \<Rightarrow>
               src_playbackRate b = playbackRate s \<and>
               (\<exists>p. src_offset b = js_div p (Fin 1000) \<and>
                    e = js_sub (js_mul (src_startedAt b) (Fin 1000))
                          (js_div p (playbackRate s))))
      | _ \<Rightarrow> True)"

text \<open>No source is active.\<close>

definition quiet :: "precise_audio \<Rightarrow> bool" where
  "quiet s = (\<forall>r < length (sources s). \<not> src_active (sources s ! r))"

text \<open>References point into the stores, and a load in flight has not delivered data.\<close>

definition refs_ok :: "precise_audio \<Rightarrow> bool" where
  "refs_ok s =
     ((\<forall>t. track s = Some t \<longrightarrow> t < length (tracks s)) \<and>
      (\<forall>st. cur_state_ref s = Some st \<longrightarrow> st < length (play_states s)) \<and>
      (\<forall>t \<in> set (in_flight s). t < length (tracks s) \<and> data (tracks s ! t) = None))"

text \<open>Every source has one \<open>ended\<close> listener, which closed over a playing state of
  that source.\<close>

definition listeners_ok :: "precise_audio \<Rightarrow> bool" where
  "listeners_ok s =
     (\<forall>r < length (sources s). \<exists>st q e.
         src_onended (sources s ! r) = [st] \<and>
         deref (play_states s) st = Some (Playing r q e))"

text \<open>The playing state has not been told to suppress \<open>ended\<close>, and the listener of its
  source closed over it.\<close>

definition playing_ok :: "precise_audio \<Rightarrow> bool" where
  "playing_ok s =
     (\<forall>r q e. cur_state s = Some (Playing r q e) \<longrightarrow>
        \<not> q \<and> r < length (sources s) \<and>
        (\<forall>st. cur_state_ref s = Some st \<longrightarrow> src_onended (sources s ! r) = [st]))"

definition engine_ok :: "precise_audio \<Rightarrow> bool" where
  "engine_ok s =
     (refs_ok s \<and> listeners_ok s \<and> playing_ok s \<and> one_active_source s \<and>
      anchor_consistent s)"

text \<open>From one state of the machine to a later one the stores only grow, and the
  current track and the current play state either stay, or are dropped, or are objects
  that did not exist before.\<close>

definition advances :: "precise_audio \<Rightarrow> precise_audio \<Rightarrow> bool" where
  "advances s s' =
     (length (play_states s) \<le> length (play_states s') \<and>
      length (tracks s) \<le> length (tracks s') \<and>
      (cur_state_ref s' = cur_state_ref s \<or> cur_state_ref s' = None \<or>
       (\<exists>n \<ge> length (play_states s). cur_state_ref s' = Some n)) \<and>
      (track s' = track s \<or> track s' = None \<or>
       (\<exists>n \<ge> length (tracks s). track s' = Some n)))"

section \<open>Basic facts\<close>

lemma cur_state_SomeD:
  "cur_state s = Some ps \<Longrightarrow>
     \<exists>d. cur_data s = Some d \<and> deref (play_states s) (state d) = Some ps"
  by (auto simp: cur_state_def cur_state_ref_def split: Option.bind_splits)

lemma to_double_zero [simp]: "to_double 0 = Fin 0"
  by (simp add: to_double_def)

lemma to_double_not_NaN [simp]: "to_double x \<noteq> NaN" "NaN \<noteq> to_double x"
  by (auto simp: to_double_def Let_def)

lemma round_half_even_of_int [simp]: "round_half_even (of_int m) = m"
  by (simp add: round_half_even_def)


lemma binade_le:
  assumes "x \<noteq> 0" "\<bar>x\<bar> < 2 powr of_int k" "- 1021 \<le> k"
  shows "binade x \<le> k - 1"
proof -
  from assms(1) have pos: "0 < \<bar>x\<bar>" by simp
  have "log 2 \<bar>x\<bar> < of_int k" using assms(2) pos by (simp add: log_less_iff)
  then have "\<lfloor>log 2 \<bar>x\<bar>\<rfloor> \<le> k - 1" by linarith
  with assms(3) show ?thesis by (simp add: binade_def)
qed

lemma pow2_add: "2 powr of_int (a + b) = (2::real) powr of_int a * 2 powr of_int b"
  by (simp add: powr_add)

lemma pow2_nat: "2 powr of_int (int n) = (2::real) ^ n"
  by (simp add: powr_realpow)

lemma to_double_dyadic:
  assumes "\<bar>n\<bar> < 2 ^ 53" "j \<le> 1074"
  shows "to_double (of_int n / 2 ^ j) = Fin (of_int n / 2 ^ j)"
proof (cases "n = 0")
  case True
  then show ?thesis by simp
next
  case False
  define x :: real where "x = of_int n / 2 ^ j"
  have x0: "x \<noteq> 0" using False by (simp add: x_def)
  have absx: "\<bar>x\<bar> = \<bar>of_int n\<bar> / 2 ^ j" by (simp add: x_def)
  have nlt: "\<bar>real_of_int n\<bar> < 2 ^ 53"
  proof -
    from assms(1) have "real_of_int \<bar>n\<bar> < real_of_int (2 ^ 53)"
      by (simp only: of_int_less_iff)
    then show ?thesis by simp
  qed
  have "2 powr of_int (53 - int j) * (2::real) ^ j = 2 powr of_int ((53 - int j) + int j)"
    by (simp only: pow2_add pow2_nat)
  also have "\<dots> = 2 ^ 53" using pow2_nat [of 53] by simp
  finally have p53: "2 powr of_int (53 - int j) * (2::real) ^ j = 2 ^ 53" .
  have "\<bar>x\<bar> * 2 ^ j = \<bar>real_of_int n\<bar>" by (simp add: absx)
  also have "\<dots> < 2 powr of_int (53 - int j) * 2 ^ j" using nlt by (simp only: p53)
  finally have lt: "\<bar>x\<bar> < 2 powr of_int (53 - int j)" by simp
  have "binade x \<le> 53 - int j - 1"
    using x0 lt assms(2) by (intro binade_le) simp_all
  then have kpos: "0 \<le> 52 - binade x - int j" by simp
  define k where "k = nat (52 - binade x - int j)"
  define u :: real where "u = 2 powr of_int (binade x - 52)"
  have upos: "0 < u" by (simp add: u_def)
  have "u * (2 ^ j * 2 ^ k) = 2 powr of_int (binade x - 52) * (2 powr of_int (int j) * 2 powr of_int (int k))"
    by (simp only: u_def pow2_nat)
  also have "\<dots> = 2 powr of_int ((binade x - 52) + (int j + int k))"
    by (simp only: pow2_add)
  also have "(binade x - 52) + (int j + int k) = 0" using kpos by (simp add: k_def)
  finally have uk: "u * (2 ^ j * 2 ^ k) = 1" by simp
  have "x / u = x * (u * (2 ^ j * 2 ^ k)) / u" by (simp only: uk mult_1_right)
  also have "\<dots> = x * (2 ^ j * 2 ^ k)" using upos by simp
  also have "\<dots> = of_int n * 2 ^ k" by (simp add: x_def)
  also have "\<dots> = of_int (n * 2 ^ k)" by simp
  finally have q: "x / u = of_int (n * 2 ^ k)" .
  have y: "of_int (round_half_even (x / u)) * u = x"
  proof -
    have "of_int (round_half_even (x / u)) * u = (x / u) * u"
      by (simp only: q round_half_even_of_int)
    also have "\<dots> = x" using upos by simp
    finally show ?thesis .
  qed
  have "(1::real) \<le> 2 ^ j" by simp
  then have "\<bar>real_of_int n\<bar> * 1 \<le> \<bar>real_of_int n\<bar> * 2 ^ j"
    by (intro mult_left_mono) simp_all
  then have "\<bar>x\<bar> \<le> \<bar>real_of_int n\<bar>"
    by (simp add: absx field_simps)
  also have "\<dots> < 2 ^ 53" by (rule nlt)
  also have "\<dots> < (2::real) ^ 1024" by simp
  finally have small: "\<not> 2 ^ 1024 \<le> \<bar>x\<bar>" by simp
  have "to_double x = Fin x"
    unfolding to_double_def Let_def y [unfolded u_def]
    by (simp only: x0 small if_False)
  then show ?thesis by (simp add: x_def)
qed

lemma to_double_int: "\<bar>n\<bar> < 2 ^ 53 \<Longrightarrow> to_double (of_int n) = Fin (of_int n)"
  using to_double_dyadic [of n 0] by simp

lemma to_double_numeral [simp]:
  "(numeral w :: int) < 2 ^ 53 \<Longrightarrow> to_double (numeral w) = Fin (numeral w)"
  "(numeral w :: int) < 2 ^ 53 \<Longrightarrow> to_double (- numeral w) = Fin (- numeral w)"
  using to_double_int [of "numeral w"] to_double_int [of "- numeral w"] by simp_all

lemma to_double_one [simp]: "to_double 1 = Fin 1" "to_double (- 1) = Fin (- 1)"
  using to_double_int [of 1] to_double_int [of "- 1"] by simp_all




lemma loaded_engine_eq:
  "loaded_engine =
     \<lparr> ctx_currentTime = Fin 0, ctx_state = Running, gain_value = Fin 1,
       animationFrameRequest = None, frame_pending = None, frame_next = 0,
       playbackRate = Fin 1, adjustPitchWithPlaybackRate = True,
       volume = Fin 1, muted = False,
       track = Some 0,
       tracks = [\<lparr>source = File 7,
                  data = Some \<lparr>buffer = \<lparr>buffer_duration = Fin 10\<rparr>, state = 0\<rparr>\<rparr>],
       play_states = [Paused (Fin 0)], sources = [],
       in_flight = [],
       event_log = [PreciseAudioEvent Loadeddata, PreciseAudioEvent Canplay,
                 PreciseAudioEvent Canplaythrough, PreciseAudioEvent Timeupdate] \<rparr>"
  by (simp add: loaded_engine_def new_PreciseAudio_def loadAudioFile_def stopIfPlaying_def
      cur_state_ref_def cur_data_def cur_track_def deref_def Let_def settle_def
      loadAudioFile_settled_def loadFile_def sendEvent_def)

lemma loaded_engine_cur_state: "cur_state loaded_engine = Some (Paused (Fin 0))"
  by (simp add: loaded_engine_eq cur_state_def cur_state_ref_def cur_data_def cur_track_def
      deref_def)

lemma playing_engine_eq:
  "playing_engine =
     \<lparr> ctx_currentTime = Fin 2, ctx_state = Running, gain_value = Fin 1,
       animationFrameRequest = Some 0, frame_pending = Some 0, frame_next = 1,
       playbackRate = Fin 1, adjustPitchWithPlaybackRate = True,
       volume = Fin 1, muted = False,
       track = Some 0,
       tracks = [\<lparr>source = File 7,
                  data = Some \<lparr>buffer = \<lparr>buffer_duration = Fin 10\<rparr>, state = 1\<rparr>\<rparr>],
       play_states = [Paused (Fin 0), Playing 0 False (Fin 0)],
       sources = [\<lparr> src_playbackRate = Fin 1, src_route = ToGain,
                    src_buffer = \<lparr>buffer_duration = Fin 10\<rparr>,
                    src_startedAt = Fin 0, src_offset = Fin 0,
                    src_stopped = False, src_ended = False, src_onended = [1] \<rparr>],
       in_flight = [],
       event_log = [PreciseAudioEvent Loadeddata, PreciseAudioEvent Canplay,
                 PreciseAudioEvent Canplaythrough, PreciseAudioEvent Timeupdate,
                 PreciseAudioEvent Play] \<rparr>"
  by (simp add: playing_engine_def loaded_engine_eq play_def resumeIfSuspended_def
      cur_state_def cur_state_ref_def cur_data_def cur_track_def deref_def playFrom_def
      Let_def js_seq_def nowMillis_def js_sub_def assign_state_def scheduleTimeUpdated_def
      sendEvent_def)

lemma playing_engine_cur:
  "cur_state_ref playing_engine = Some 1"
  "cur_state playing_engine = Some (Playing 0 False (Fin 0))"
  by (simp_all add: playing_engine_eq cur_state_def cur_state_ref_def cur_data_def
      cur_track_def deref_def)

lemma played_engine_eq:
  "played_engine =
     \<lparr> ctx_currentTime = Fin 10, ctx_state = Running, gain_value = Fin 1,
       animationFrameRequest = Some 0, frame_pending = Some 0, frame_next = 1,
       playbackRate = Fin 1, adjustPitchWithPlaybackRate = True,
       volume = Fin 1, muted = False,
       track = Some 0,
       tracks = [\<lparr>source = File 7,
                  data = Some \<lparr>buffer = \<lparr>buffer_duration = Fin 10\<rparr>, state = 1\<rparr>\<rparr>],
       play_states = [Paused (Fin 0), Playing 0 False (Fin 0)],
       sources = [\<lparr> src_playbackRate = Fin 1, src_route = ToGain,
                    src_buffer = \<lparr>buffer_duration = Fin 10\<rparr>,
                    src_startedAt = Fin 0, src_offset = Fin 0,
                    src_stopped = False, src_ended = False, src_onended = [1] \<rparr>],
       in_flight = [],
       event_log = [PreciseAudioEvent Loadeddata, PreciseAudioEvent Canplay,
                 PreciseAudioEvent Canplaythrough, PreciseAudioEvent Timeupdate,
                 PreciseAudioEvent Play] \<rparr>"
  by (simp add: played_engine_def playing_engine_eq)

section \<open>The getters\<close>

text \<open>
  Claim C10. On an engine with no track, or with a track whose data has not been
  loaded yet, \<open>currentTimeMillis\<close>, \<open>currentTime\<close>, \<open>duration\<close> and \<open>durationMillis\<close>
  all return 0 and \<open>paused\<close> returns true: the getters are total on absent data.
\<close>

theorem getters_without_data:
  assumes "track s = None \<or> (\<exists>tr. cur_track s = Some tr \<and> data tr = None)"
  shows "currentTimeMillis s = Fin 0 \<and> currentTime s = Fin 0 \<and> duration s = Fin 0
         \<and> durationMillis s = Fin 0 \<and> paused s"
proof -
  from assms have "cur_data s = None"
  proof
    assume "track s = None"
    then have "cur_track s = None" by (simp add: cur_track_def)
    then show ?thesis by (simp add: cur_data_def)
  next
    assume "\<exists>tr. cur_track s = Some tr \<and> data tr = None"
    then show ?thesis by (auto simp: cur_data_def)
  qed
  then show ?thesis
    by (simp add: currentTimeMillis_def currentTime_def duration_def durationMillis_def
        paused_def is_playing_def cur_state_def cur_state_ref_def)
qed

theorem getters_without_data_witness:
  "(let s = snd (loadAudioFile 7 (new_PreciseAudio (Fin 3) Running))
    in (\<exists>tr. cur_track s = Some tr \<and> data tr = None)
       \<and> currentTimeMillis s = Fin 0 \<and> currentTime s = Fin 0 \<and> duration s = Fin 0
       \<and> durationMillis s = Fin 0 \<and> paused s)"
proof -
  let ?s = "snd (loadAudioFile 7 (new_PreciseAudio (Fin 3) Running))"
  have h: "\<exists>tr. cur_track ?s = Some tr \<and> data tr = None"
    by (simp add: loadAudioFile_def new_PreciseAudio_def stopIfPlaying_def cur_state_ref_def
        cur_data_def cur_track_def deref_def Let_def)
  then have "track ?s = None \<or> (\<exists>tr. cur_track ?s = Some tr \<and> data tr = None)" by simp
  from getters_without_data [OF this] h show ?thesis by (simp add: Let_def)
qed

text \<open>
  Claim C1. \<open>currentTimeMillis\<close> is a query: on a loaded track that is paused it
  returns the stored \<open>positionMillis\<close>, on one that is playing it returns
  \<open>(now - effectiveStartTimeMillis) * playbackRate\<close> with \<open>now\<close> the context clock in
  milliseconds. The getter is a function from the engine to a number: it returns no
  engine, so it changes none. On finite numbers each of the three operations rounds:
  with \<open>n\<close> the double nearest to the clock times 1000 and \<open>d\<close> the double nearest
  to \<open>n\<close> less the anchor, the result is the double nearest to \<open>d\<close> times the rate.
\<close>

theorem currentTimeMillis_precise:
  "(cur_state s = Some (Paused p) \<longrightarrow> currentTimeMillis s = p)
   \<and> (cur_state s = Some (Playing r q eff) \<longrightarrow>
        currentTimeMillis s =
          js_mul (js_sub (js_mul (ctx_currentTime s) (Fin 1000)) eff) (playbackRate s))
   \<and> (cur_state s = Some (Playing r q (Fin a)) \<and> ctx_currentTime s = Fin c
        \<and> playbackRate s = Fin k
        \<and> to_double (c * 1000) = Fin n \<and> to_double (n - a) = Fin d \<longrightarrow>
        currentTimeMillis s = to_double (d * k))"
  by (auto dest!: cur_state_SomeD simp: currentTimeMillis_def nowMillis_def js_sub_def)

theorem currentTimeMillis_precise_witness:
  "cur_state loaded_engine = Some (Paused (Fin 0)) \<and> currentTimeMillis loaded_engine = Fin 0
   \<and> cur_state playing_engine = Some (Playing 0 False (Fin 0))
   \<and> ctx_currentTime playing_engine = Fin 2 \<and> playbackRate playing_engine = Fin 1
   \<and> to_double (2 * 1000) = Fin 2000 \<and> to_double (2000 - 0) = Fin 2000
   \<and> currentTimeMillis playing_engine = Fin 2000"
proof -
  have d: "to_double (2 * 1000) = Fin 2000" "to_double (2000 - 0) = Fin 2000"
    by simp_all
  have f: "ctx_currentTime playing_engine = Fin 2" "playbackRate playing_engine = Fin 1"
    by (simp_all add: playing_engine_eq)
  from currentTimeMillis_precise [where s = playing_engine and r = 0 and q = False
      and eff = "Fin 0" and a = 0 and c = 2 and k = 1 and n = 2000 and d = 2000]
    playing_engine_cur(2) f d
  have "currentTimeMillis playing_engine = to_double (2000 * 1)" by blast
  then have p: "currentTimeMillis playing_engine = Fin 2000" by simp
  from currentTimeMillis_precise [where s = loaded_engine and p = "Fin 0"]
    loaded_engine_cur_state
  have l: "currentTimeMillis loaded_engine = Fin 0" by blast
  from p l loaded_engine_cur_state playing_engine_cur(2) f d show ?thesis by simp
qed

section \<open>Seeking\<close>

text \<open>
  Claim C6. On a loaded track that is paused, assigning \<open>currentTime\<close> overwrites the
  stored position with the given position (in milliseconds: the seconds given times
  1000, as a double), so that \<open>currentTimeMillis\<close> returns exactly it and
  \<open>currentTime\<close> returns it divided by 1000; no buffer source is created, and
  \<open>timeupdate\<close> then \<open>seeked\<close> are dispatched.
\<close>

theorem seek_while_paused:
  assumes "cur_state s = Some (Paused p)"
  shows "currentTimeMillis (set_currentTime x s) = js_mul x (Fin 1000)
         \<and> currentTime (set_currentTime x s) = js_div (js_mul x (Fin 1000)) (Fin 1000)
         \<and> cur_state (set_currentTime x s) = Some (Paused (js_mul x (Fin 1000)))
         \<and> sources (set_currentTime x s) = sources s
         \<and> event_log (set_currentTime x s) =
             event_log s @ [PreciseAudioEvent Timeupdate, PreciseAudioEvent Seeked]"
proof -
  from assms obtain d where d: "cur_data s = Some d"
    and ps: "deref (play_states s) (state d) = Some (Paused p)"
    by (auto dest: cur_state_SomeD)
  from ps have lt: "state d < length (play_states s)"
    by (simp add: deref_def split: if_splits)
  let ?s' = "set_currentTime x s"
  have eq: "?s' = sendEvent Seeked (sendEvent Timeupdate
       (s\<lparr>play_states := (play_states s)[state d := Paused (js_mul x (Fin 1000))]\<rparr>))"
    using d ps by (simp add: set_currentTime_def Let_def)
  have cd: "cur_data ?s' = Some d"
    using d by (simp add: eq sendEvent_def cur_data_def cur_track_def)
  have ps': "deref (play_states ?s') (state d) = Some (Paused (js_mul x (Fin 1000)))"
    using lt by (simp add: eq sendEvent_def deref_def)
  have ctm: "currentTimeMillis ?s' = js_mul x (Fin 1000)"
    using cd ps' by (simp add: currentTimeMillis_def)
  have "cur_state ?s' = Some (Paused (js_mul x (Fin 1000)))"
    using cd ps' by (simp add: cur_state_def cur_state_ref_def)
  moreover have "currentTime ?s' = js_div (js_mul x (Fin 1000)) (Fin 1000)"
    by (simp only: currentTime_def ctm)
  moreover have "sources ?s' = sources s" by (simp add: eq sendEvent_def)
  moreover have "event_log ?s' = event_log s @ [PreciseAudioEvent Timeupdate, PreciseAudioEvent Seeked]"
    by (simp add: eq sendEvent_def)
  ultimately show ?thesis using ctm by simp
qed

theorem seek_while_paused_witness:
  "cur_state loaded_engine = Some (Paused (Fin 0))
   \<and> currentTimeMillis (set_currentTime (Fin 2.5) loaded_engine) = Fin 2500
   \<and> currentTime (set_currentTime (Fin 2.5) loaded_engine) = Fin 2.5
   \<and> sources (set_currentTime (Fin 2.5) loaded_engine) = []"
  using seek_while_paused [OF loaded_engine_cur_state, of "Fin 2.5"]
    to_double_dyadic [of 5 1]
  by (simp add: loaded_engine_cur_state) (simp add: loaded_engine_eq)

section \<open>Volume\<close>

lemma clamp_code: "vol \<noteq> NaN \<Longrightarrow> Math_max (Fin 0) (Math_min (Fin 1) vol) = clamp01 vol"
  by (cases vol) (auto simp: Math_max_def Math_min_def)

lemma clamp01_not_NaN: "vol \<noteq> NaN \<Longrightarrow> clamp01 vol \<noteq> NaN"
  by (cases vol) auto

text \<open>
  Claim C8, amended. For every volume assigned that is not NaN, the stored volume
  afterwards is the value clamped to [0, 1], and \<open>volumechange\<close> is dispatched if and
  only if the stored value changes; an assignment that changes nothing leaves the whole
  engine as it was. So \<open>volume = 1.5\<close> stores 1.0 and dispatches \<open>volumechange\<close>
  once when the stored volume was not 1.0 already, and \<open>volume = 1.0\<close> after it
  dispatches nothing.
\<close>

theorem set_volume_clamps:
  assumes "vol \<noteq> NaN"
  shows "volume (set_volume vol s) = clamp01 vol
         \<and> event_log (set_volume vol s) =
             (if clamp01 vol = volume s then event_log s
              else event_log s @ [PreciseAudioEvent Volumechange])
         \<and> (clamp01 vol = volume s \<longrightarrow> set_volume vol s = s)
         \<and> (volume s \<noteq> Fin 1 \<longrightarrow>
              event_log (set_volume (Fin 1.5) s) =
                event_log s @ [PreciseAudioEvent Volumechange]
              \<and> volume (set_volume (Fin 1.5) s) = Fin 1
              \<and> set_volume (Fin 1) (set_volume (Fin 1.5) s) = set_volume (Fin 1.5) s)"
proof -
  have seq: "\<And>v. v \<noteq> NaN \<Longrightarrow> js_seq (clamp01 v) (volume s) = (clamp01 v = volume s)"
    by (simp add: js_seq_def clamp01_not_NaN)
  have gen: "\<And>v. v \<noteq> NaN \<Longrightarrow> set_volume v s =
      (if clamp01 v = volume s then s
       else sendEvent Volumechange (updateGain (s\<lparr>volume := clamp01 v\<rparr>)))"
    by (simp add: set_volume_def clamp_code seq Let_def)
  have a: "volume (set_volume vol s) = clamp01 vol"
    using assms by (simp add: gen sendEvent_def updateGain_def)
  have b: "event_log (set_volume vol s) =
             (if clamp01 vol = volume s then event_log s
              else event_log s @ [PreciseAudioEvent Volumechange])"
    using assms by (simp add: gen sendEvent_def updateGain_def)
  have c: "clamp01 vol = volume s \<longrightarrow> set_volume vol s = s"
    using assms by (simp add: gen)
  have d: "volume s \<noteq> Fin 1 \<longrightarrow>
              event_log (set_volume (Fin 1.5) s) =
                event_log s @ [PreciseAudioEvent Volumechange]
              \<and> volume (set_volume (Fin 1.5) s) = Fin 1
              \<and> set_volume (Fin 1) (set_volume (Fin 1.5) s) = set_volume (Fin 1.5) s"
    by (auto simp: gen [of "Fin 1.5"] set_volume_def Math_max_def Math_min_def js_seq_def
        sendEvent_def updateGain_def Let_def)
  from a b c d show ?thesis by blast
qed

theorem set_volume_clamps_witness:
  "Fin 1.5 \<noteq> NaN
   \<and> volume (set_volume (Fin 1.5) (set_volume (Fin 0.5) (new_PreciseAudio (Fin 0) Running)))
       = Fin 1
   \<and> event_log (set_volume (Fin 1.5) (set_volume (Fin 0.5) (new_PreciseAudio (Fin 0) Running)))
       = [PreciseAudioEvent Volumechange, PreciseAudioEvent Volumechange]"
  using set_volume_clamps [of "Fin 1.5" "set_volume (Fin 0.5) (new_PreciseAudio (Fin 0) Running)"]
  by (simp add: set_volume_def Math_max_def Math_min_def js_seq_def sendEvent_def
      updateGain_def Let_def new_PreciseAudio_def)

text \<open>
  Claim C8 as stated fails on a fresh engine, whose volume is 1.0: \<open>volume = 1.5\<close>
  dispatches nothing there. It also fails at NaN, which \<open>Math.max\<close> and \<open>Math.min\<close>
  let through: NaN is stored, and since \<open>NaN !== NaN\<close> a second assignment of NaN
  dispatches \<open>volumechange\<close> again although the stored value stays what it was.
\<close>

theorem set_volume_counterexample:
  "event_log (set_volume (Fin 1.5) (new_PreciseAudio (Fin 0) Running)) = []
   \<and> volume (set_volume NaN (new_PreciseAudio (Fin 0) Running)) = NaN
   \<and> volume (set_volume NaN (set_volume NaN (new_PreciseAudio (Fin 0) Running)))
       = volume (set_volume NaN (new_PreciseAudio (Fin 0) Running))
   \<and> event_log (set_volume NaN (set_volume NaN (new_PreciseAudio (Fin 0) Running)))
       = event_log (set_volume NaN (new_PreciseAudio (Fin 0) Running))
           @ [PreciseAudioEvent Volumechange]"
  by (simp add: set_volume_def Math_max_def Math_min_def js_seq_def sendEvent_def
      updateGain_def Let_def new_PreciseAudio_def)

section \<open>Load failures\<close>

text \<open>
  Claim C7, amended. A failure of the asynchronous load (reading, fetching or decoding)
  is caught where the load was started and dispatched as an \<open>error\<close> event carrying the
  error. The promise chain of the \<open>src\<close> setter then fulfils, so nothing propagates;
  the promise \<open>loadAudioFile\<close> returned rejects with the same error, since its handler
  throws it again. A load that succeeds fulfils both.
\<close>

theorem load_failure_reported:
  "loadAudioFile_settled t (Inl e) s = (Inl e, dispatchError e s)
   \<and> set_src_settled t (Inl e) s = (Inr (), dispatchError e s)
   \<and> event_log (dispatchError e s) = event_log s @ [ErrorEvent e]
   \<and> fst (loadAudioFile_settled t (Inr b) s) = Inr ()
   \<and> fst (set_src_settled t (Inr b) s) = Inr ()"
  by (simp add: loadAudioFile_settled_def set_src_settled_def loadFile_def dispatchError_def)

text \<open>
  Claim C7 as stated fails for \<open>loadAudioFile\<close>: when decoding fails, the promise it
  returned rejects.
\<close>

theorem load_failure_counterexample:
  "loadAudioFile_settled 0 (Inl ''decode'') (snd (loadAudioFile 7 (new_PreciseAudio (Fin 0) Running)))
     = (Inl ''decode'',
        dispatchError ''decode'' (snd (loadAudioFile 7 (new_PreciseAudio (Fin 0) Running))))"
  by (simp add: loadAudioFile_settled_def loadFile_def)

section \<open>Cue files\<close>

lemma js_lt_asym: "\<not> (js_lt x c \<and> js_lt c x)"
  by (cases x; cases c) auto

lemma small_shift_guard_never: "\<not> small_shift_guard shift"
  by (simp only: small_shift_guard_def js_lt_asym not_False_eq_True)

lemma buildUp_fold:
  "(case fold (\<lambda>e m. m(layer e \<mapsto>
                     insert (index e) (case m (layer e) of None \<Rightarrow> {} | Some S \<Rightarrow> S)))
       sel m0 i of None \<Rightarrow> False | Some S \<Rightarrow> j \<in> S)
   = ((case m0 i of None \<Rightarrow> False | Some S \<Rightarrow> j \<in> S) \<or> is_selected sel i j)"
  by (induction sel arbitrary: m0) (auto simp: is_selected_def split: option.splits)

lemma buildUp_selected:
  "(case buildUpSelectionSet sel i of None \<Rightarrow> False | Some S \<Rightarrow> j \<in> S) = is_selected sel i j"
  by (simp add: buildUpSelectionSet_def buildUp_fold)

lemma modifyEvents_shape:
  "lengthMillis (modifyEvents cf sel f) = lengthMillis cf
   \<and> length (layers (modifyEvents cf sel f)) = length (layers cf)"
  by (simp add: modifyEvents_def Let_def)

lemma modifyEvents_layer:
  assumes "i < length (layers cf)"
  shows "kind (layers (modifyEvents cf sel f) ! i) = kind (layers cf ! i)
     \<and> settings (layers (modifyEvents cf sel f) ! i) = settings (layers cf ! i)
     \<and> length (events (layers (modifyEvents cf sel f) ! i)) = length (events (layers cf ! i))"
  using assms by (simp add: modifyEvents_def Let_def nth_enumerate_eq split: option.splits)

lemma modifyEvents_event:
  assumes "i < length (layers cf)" "j < length (events (layers cf ! i))"
  shows "events (layers (modifyEvents cf sel f) ! i) ! j =
     (if is_selected sel i j then f (events (layers cf ! i) ! j) (layers cf ! i)
      else events (layers cf ! i) ! j)"
  using assms buildUp_selected [where sel = sel and i = i and j = j]
  by (auto simp: modifyEvents_def Let_def nth_enumerate_eq split: option.splits)


lemma Math_min_apply_fold_Fin:
  "fold (\<lambda>x acc. Math_min acc x) (map Fin xs) (Fin a) = Fin (Min (insert a (set xs)))"
proof (induction xs arbitrary: a)
  case Nil
  then show ?case by simp
next
  case (Cons x xs)
  have "Math_min (Fin a) (Fin x) = Fin (min a x)"
    by (auto simp: Math_min_def)
  moreover have "Min (insert (min a x) (set xs)) = Min (insert a (insert x (set xs)))"
    by (cases "set xs = {}") (auto simp: min.assoc)
  ultimately show ?case using Cons.IH [of "min a x"] by simp
qed

lemma Math_min_apply_Fin:
  "xs \<noteq> [] \<Longrightarrow> Math_min_apply (map Fin xs) = Fin (Min (set xs))"
proof (cases xs)
  case Nil
  then show "xs \<noteq> [] \<Longrightarrow> ?thesis" by simp
next
  case (Cons x ys)
  have "Math_min PInf (Fin x) = Fin x" by (simp add: Math_min_def)
  then show ?thesis
    using Math_min_apply_fold_Fin [of ys x] by (simp add: Math_min_apply_def Cons)
qed

text \<open>
  Claim C9. In \<open>updateStartTimeForSelectedEvents\<close> the guard
  \<open>shift < 0.1 && shift > 0.1\<close> holds for no number, so the return behind it is never
  taken: for a selection that is not empty and names events of the file, and a new start
  time that, clamped to be at least 0, differs from the earliest start of the selected
  events, the function returns the file in which every selected event's timestamp is
  shifted by the clamped new start minus the old one (the difference and the sum as
  doubles) and nothing else is changed, however small the shift. The clamp turns a
  negative new start, and minus infinity, into 0 and leaves every other number.
\<close>

theorem shift_selected_events:
  assumes "selection \<noteq> []"
    and "selected_timestamps cueFile selection = Inr ts"
    and "\<not> js_seq (Math_min_apply ts) (Math_max (Fin 0) newStartTime)"
  shows "(\<forall>x. \<not> small_shift_guard x)
     \<and> (\<forall>xs. ts = map Fin xs \<longrightarrow> Math_min_apply ts = Fin (Min (set xs)))
     \<and> Math_max (Fin 0) newStartTime =
         (case newStartTime of
            Fin x \<Rightarrow> Fin (max 0 x) | PInf \<Rightarrow> PInf | NInf \<Rightarrow> Fin 0 | NaN \<Rightarrow> NaN)
     \<and> (\<exists>cf'. updateStartTimeForSelectedEvents cueFile selection newStartTime = Inr cf'
           \<and> lengthMillis cf' = lengthMillis cueFile
           \<and> length (layers cf') = length (layers cueFile)
           \<and> (\<forall>i < length (layers cueFile).
                 kind (layers cf' ! i) = kind (layers cueFile ! i)
                 \<and> settings (layers cf' ! i) = settings (layers cueFile ! i)
                 \<and> length (events (layers cf' ! i)) = length (events (layers cueFile ! i))
                 \<and> (\<forall>j < length (events (layers cueFile ! i)).
                       events (layers cf' ! i) ! j =
                         (if is_selected selection i j
                          then \<lparr> timestampMillis =
                                   js_add (timestampMillis (events (layers cueFile ! i) ! j))
                                     (js_sub (Math_max (Fin 0) newStartTime) (Math_min_apply ts)),
                                 states = states (events (layers cueFile ! i) ! j) \<rparr>
                          else events (layers cueFile ! i) ! j))))"
proof -
  let ?shift = "js_sub (Math_max (Fin 0) newStartTime) (Math_min_apply ts)"
  let ?cf = "modifyEvents cueFile selection (\<lambda>e l. shiftEvent ?shift e)"
  have guard: "\<forall>x. \<not> small_shift_guard x"
  proof
    fix x show "\<not> small_shift_guard x"
      by (rule small_shift_guard_never)
  qed
  have start: "\<forall>xs. ts = map Fin xs \<longrightarrow> Math_min_apply ts = Fin (Min (set xs))"
  proof (intro allI impI)
    fix xs assume eq: "ts = map Fin xs"
    from assms(1,2) have "ts \<noteq> []" by (cases selection) (auto split: option.splits sum.splits)
    with eq have "xs \<noteq> []" by auto
    then show "Math_min_apply ts = Fin (Min (set xs))"
      by (simp add: eq Math_min_apply_Fin)
  qed
  have clamp: "Math_max (Fin 0) newStartTime =
         (case newStartTime of
            Fin x \<Rightarrow> Fin (max 0 x) | PInf \<Rightarrow> PInf | NInf \<Rightarrow> Fin 0 | NaN \<Rightarrow> NaN)"
    by (cases newStartTime) (auto simp: Math_max_def)
  have res: "updateStartTimeForSelectedEvents cueFile selection newStartTime = Inr ?cf"
    using assms guard by (simp add: updateStartTimeForSelectedEvents_def Let_def)
  have ev: "\<forall>i < length (layers cueFile).
                 kind (layers ?cf ! i) = kind (layers cueFile ! i)
                 \<and> settings (layers ?cf ! i) = settings (layers cueFile ! i)
                 \<and> length (events (layers ?cf ! i)) = length (events (layers cueFile ! i))
                 \<and> (\<forall>j < length (events (layers cueFile ! i)).
                       events (layers ?cf ! i) ! j =
                         (if is_selected selection i j
                          then \<lparr> timestampMillis =
                                   js_add (timestampMillis (events (layers cueFile ! i) ! j)) ?shift,
                                 states = states (events (layers cueFile ! i) ! j) \<rparr>
                          else events (layers cueFile ! i) ! j))"
    by (simp add: modifyEvents_layer modifyEvents_event shiftEvent_def)
  from guard start clamp res ev
    modifyEvents_shape [of cueFile selection "\<lambda>e l. shiftEvent ?shift e"]
  show ?thesis by blast
qed

lemma example_timestamps:
  "selected_timestamps example_file example_selection = Inr [Fin 250, Fin 100]"
  by (simp add: example_file_def example_selection_def deref_def)

lemma example_start: "Math_min_apply [Fin 250, Fin 100] = Fin 100"
  by (simp add: Math_min_apply_def Math_min_def)

lemma example_modified:
  "modifyEvents example_file example_selection (\<lambda>e l. shiftEvent shift e) =
     \<lparr> lengthMillis = Fin 1000,
       layers =
         [\<lparr> kind = ''percussion'', settings = (),
            events =
              [\<lparr>timestampMillis = js_add (Fin 100) shift, states = ()\<rparr>,
               \<lparr>timestampMillis = js_add (Fin 250) shift, states = ()\<rparr>,
               \<lparr>timestampMillis = Fin 400, states = ()\<rparr>] \<rparr>] \<rparr>"
  by (simp add: modifyEvents_def buildUpSelectionSet_def example_selection_def
      example_file_def shiftEvent_def Let_def)

lemma example_doubles:
  "to_double (1 / 16) = Fin (1 / 16)"
  "to_double (1601 / 16) = Fin (1601 / 16)"
  "to_double (4001 / 16) = Fin (4001 / 16)"
  using to_double_dyadic [of 1 4] to_double_dyadic [of 1601 4] to_double_dyadic [of 4001 4]
  by simp_all

theorem shift_selected_events_witness:
  "example_selection \<noteq> []
   \<and> selected_timestamps example_file example_selection = Inr [Fin 250, Fin 100]
   \<and> \<not> js_seq (Math_min_apply [Fin 250, Fin 100]) (Math_max (Fin 0) (Fin (- 50)))
   \<and> \<not> js_seq (Math_min_apply [Fin 250, Fin 100]) (Math_max (Fin 0) (Fin (1601 / 16)))
   \<and> updateStartTimeForSelectedEvents example_file example_selection (Fin (- 50)) =
       Inr \<lparr> lengthMillis = Fin 1000,
             layers =
               [\<lparr> kind = ''percussion'', settings = (),
                  events =
                    [\<lparr>timestampMillis = Fin 0, states = ()\<rparr>,
                     \<lparr>timestampMillis = Fin 150, states = ()\<rparr>,
                     \<lparr>timestampMillis = Fin 400, states = ()\<rparr>] \<rparr>] \<rparr>
   \<and> updateStartTimeForSelectedEvents example_file example_selection (Fin (1601 / 16)) =
       Inr \<lparr> lengthMillis = Fin 1000,
             layers =
               [\<lparr> kind = ''percussion'', settings = (),
                  events =
                    [\<lparr>timestampMillis = Fin (1601 / 16), states = ()\<rparr>,
                     \<lparr>timestampMillis = Fin (4001 / 16), states = ()\<rparr>,
                     \<lparr>timestampMillis = Fin 400, states = ()\<rparr>] \<rparr>] \<rparr>"
proof -
  have a: "example_selection \<noteq> []" by (simp add: example_selection_def)
  have nonempty: "length example_selection \<noteq> 0" by (simp add: example_selection_def)
  have c1: "\<not> js_seq (Math_min_apply [Fin 250, Fin 100]) (Math_max (Fin 0) (Fin (- 50)))"
    by (simp add: example_start js_seq_def Math_max_def)
  have c2: "\<not> js_seq (Math_min_apply [Fin 250, Fin 100]) (Math_max (Fin 0) (Fin (1601 / 16)))"
    by (simp add: example_start js_seq_def Math_max_def)
  note t1 = shift_selected_events [OF a example_timestamps c1]
  note t2 = shift_selected_events [OF a example_timestamps c2]
  from t1 have g: "\<forall>x. \<not> small_shift_guard x" by blast
  from t1 have m1: "Math_max (Fin 0) (Fin (- 50)) = Fin 0" by simp
  from t2 have m2: "Math_max (Fin 0) (Fin (1601 / 16)) = Fin (1601 / 16)" by simp
  have r1: "updateStartTimeForSelectedEvents example_file example_selection (Fin (- 50)) =
       Inr \<lparr> lengthMillis = Fin 1000,
             layers =
               [\<lparr> kind = ''percussion'', settings = (),
                  events =
                    [\<lparr>timestampMillis = Fin 0, states = ()\<rparr>,
                     \<lparr>timestampMillis = Fin 150, states = ()\<rparr>,
                     \<lparr>timestampMillis = Fin 400, states = ()\<rparr>] \<rparr>] \<rparr>"
    using c1 nonempty g
    by (simp add: updateStartTimeForSelectedEvents_def example_timestamps example_start
        Let_def m1 example_modified js_sub_def example_doubles)
  have r2: "updateStartTimeForSelectedEvents example_file example_selection (Fin (1601 / 16)) =
       Inr \<lparr> lengthMillis = Fin 1000,
             layers =
               [\<lparr> kind = ''percussion'', settings = (),
                  events =
                    [\<lparr>timestampMillis = Fin (1601 / 16), states = ()\<rparr>,
                     \<lparr>timestampMillis = Fin (4001 / 16), states = ()\<rparr>,
                     \<lparr>timestampMillis = Fin 400, states = ()\<rparr>] \<rparr>] \<rparr>"
    using c2 nonempty g
    by (simp add: updateStartTimeForSelectedEvents_def example_timestamps example_start
        Let_def m2 example_modified js_sub_def example_doubles)
  from a c1 c2 example_timestamps r1 r2 show ?thesis by simp
qed

section \<open>The invariants are preserved\<close>

lemma deref_Some: "deref xs i = Some x \<longleftrightarrow> i < length xs \<and> xs ! i = x"
  by (auto simp: deref_def)

lemma deref_None: "deref xs i = None \<longleftrightarrow> length xs \<le> i"
  by (auto simp: deref_def)

lemma deref_append: "deref (xs @ [x]) i = (if i = length xs then Some x else deref xs i)"
  by (auto simp: deref_def nth_append)

lemma deref_update: "deref (xs[j := x]) i = (if i = j \<and> j < length xs then Some x else deref xs i)"
  by (auto simp: deref_def)

lemma cur_data_SomeD:
  "cur_data s = Some d \<Longrightarrow>
     \<exists>t tr. track s = Some t \<and> t < length (tracks s) \<and> tracks s ! t = tr \<and> data tr = Some d"
  by (auto simp: cur_data_def cur_track_def deref_Some split: Option.bind_splits)

lemma cur_data_eq:
  "track s = Some t \<Longrightarrow> t < length (tracks s) \<Longrightarrow> cur_data s = data (tracks s ! t)"
  by (simp add: cur_data_def cur_track_def deref_def)

lemma cur_data_no_track: "track s = None \<Longrightarrow> cur_data s = None"
  by (simp add: cur_data_def cur_track_def)

lemma cur_state_eq:
  "cur_data s = Some d \<Longrightarrow> cur_state_ref s = Some (state d) \<and> cur_state s = deref (play_states s) (state d)"
  by (simp add: cur_state_def cur_state_ref_def)

lemma cur_state_no_data: "cur_data s = None \<Longrightarrow> cur_state_ref s = None \<and> cur_state s = None"
  by (simp add: cur_state_def cur_state_ref_def)

lemma assign_state_eq:
  "track s = Some t \<Longrightarrow> t < length (tracks s) \<Longrightarrow> data (tracks s ! t) = Some d \<Longrightarrow>
   assign_state ps s =
     s\<lparr>play_states := play_states s @ [ps],
       tracks := (tracks s)[t := (tracks s ! t)\<lparr>data :=
                    Some (d\<lparr>state := length (play_states s)\<rparr>)\<rparr>]\<rparr>"
  by (simp add: assign_state_def deref_def)

lemma assign_state_fields:
  assumes "cur_data s = Some d"
  shows "track (assign_state ps s) = track s"
    and "length (tracks (assign_state ps s)) = length (tracks s)"
    and "play_states (assign_state ps s) = play_states s @ [ps]"
    and "sources (assign_state ps s) = sources s"
    and "in_flight (assign_state ps s) = in_flight s"
    and "playbackRate (assign_state ps s) = playbackRate s"
    and "event_log (assign_state ps s) = event_log s"
    and "ctx_currentTime (assign_state ps s) = ctx_currentTime s"
    and "cur_data (assign_state ps s) = Some (d\<lparr>state := length (play_states s)\<rparr>)"
    and "cur_state_ref (assign_state ps s) = Some (length (play_states s))"
    and "cur_state (assign_state ps s) = Some ps"
    and "\<And>t. track s \<noteq> Some t \<Longrightarrow> tracks (assign_state ps s) ! t = tracks s ! t"
proof -
  from assms obtain t where t: "track s = Some t" "t < length (tracks s)"
      "data (tracks s ! t) = Some d"
    by (auto dest: cur_data_SomeD)
  note eq = assign_state_eq [OF t]
  show "track (assign_state ps s) = track s" by (simp add: eq)
  show "length (tracks (assign_state ps s)) = length (tracks s)" by (simp add: eq)
  show "play_states (assign_state ps s) = play_states s @ [ps]" by (simp add: eq)
  show "sources (assign_state ps s) = sources s" by (simp add: eq)
  show "in_flight (assign_state ps s) = in_flight s" by (simp add: eq)
  show "playbackRate (assign_state ps s) = playbackRate s" by (simp add: eq)
  show "event_log (assign_state ps s) = event_log s" by (simp add: eq)
  show "ctx_currentTime (assign_state ps s) = ctx_currentTime s" by (simp add: eq)
  show cd: "cur_data (assign_state ps s) = Some (d\<lparr>state := length (play_states s)\<rparr>)"
    using t by (simp add: eq cur_data_def cur_track_def deref_def)
  show "cur_state_ref (assign_state ps s) = Some (length (play_states s))"
    by (simp add: cur_state_ref_def cd)
  then show "cur_state (assign_state ps s) = Some ps"
    by (simp add: cur_state_def eq deref_def)
  show "\<And>t'. track s \<noteq> Some t' \<Longrightarrow> tracks (assign_state ps s) ! t' = tracks s ! t'"
    using t by (auto simp: eq)
qed


lemma filter_single_hd:
  "P a \<Longrightarrow> a \<notin> set xs \<Longrightarrow>
   (a = r \<and> (\<forall>x\<in>set xs. \<not> P x)) \<longleftrightarrow>
   (r \<in> set (a # xs) \<and> P r \<and> (\<forall>x\<in>set (a # xs). P x \<longrightarrow> x = r))"
  by (cases "a = r") auto

lemma filter_single:
  "distinct xs \<Longrightarrow>
   filter P xs = [r] \<longleftrightarrow> (r \<in> set xs \<and> P r \<and> (\<forall>x\<in>set xs. P x \<longrightarrow> x = r))"
proof (induction xs)
  case Nil
  then show ?case by simp
next
  case (Cons a xs)
  show ?case
  proof (cases "P a")
    case True
    then have "filter P (a # xs) = [r] \<longleftrightarrow> a = r \<and> (\<forall>x\<in>set xs. \<not> P x)"
      by (simp add: filter_empty_conv)
    also have "\<dots> \<longleftrightarrow> (r \<in> set (a # xs) \<and> P r \<and> (\<forall>x\<in>set (a # xs). P x \<longrightarrow> x = r))"
      using True Cons.prems by (intro filter_single_hd) simp_all
    finally show ?thesis .
  next
    case False
    then have "filter P (a # xs) = [r] \<longleftrightarrow> filter P xs = [r]" by simp
    also have "\<dots> \<longleftrightarrow> (r \<in> set xs \<and> P r \<and> (\<forall>x\<in>set xs. P x \<longrightarrow> x = r))"
      using Cons by simp
    also have "\<dots> \<longleftrightarrow> (r \<in> set (a # xs) \<and> P r \<and> (\<forall>x\<in>set (a # xs). P x \<longrightarrow> x = r))"
      using False by (cases "a = r") auto
    finally show ?thesis .
  qed
qed

lemma filter_upt_single:
  "filter P [0..<n] = [r] \<longleftrightarrow> r < n \<and> P r \<and> (\<forall>i<n. P i \<longrightarrow> i = r)"
  using filter_single [of "[0..<n]" P r] by (simp add: Ball_def)

lemma quiet_iff: "quiet s \<longleftrightarrow> active_sources s = []"
  by (auto simp: quiet_def active_sources_def filter_empty_conv)

lemma one_active_paused:
  "\<not> is_playing s \<Longrightarrow> one_active_source s \<longleftrightarrow> quiet s"
  by (auto simp: one_active_source_def quiet_iff is_playing_def
      split: option.splits play_state.splits)

lemma one_active_playing:
  "cur_state s = Some (Playing r q e) \<Longrightarrow>
   one_active_source s \<longleftrightarrow>
     r < length (sources s) \<and> src_active (sources s ! r) \<and>
     (\<forall>i < length (sources s). src_active (sources s ! i) \<longrightarrow> i = r)"
  by (simp add: one_active_source_def active_sources_def filter_upt_single)

lemma st_cong:
  assumes "track s' = track s" "tracks s' = tracks s" "play_states s' = play_states s"
  shows "cur_data s' = cur_data s" "cur_state_ref s' = cur_state_ref s"
    "cur_state s' = cur_state s" "is_playing s' = is_playing s"
  using assms by (simp_all add: cur_data_def cur_track_def cur_state_ref_def cur_state_def
      is_playing_def)

lemma wf_cong:
  assumes "track s' = track s" "tracks s' = tracks s" "play_states s' = play_states s"
    "sources s' = sources s" "in_flight s' = in_flight s" "playbackRate s' = playbackRate s"
  shows "refs_ok s' = refs_ok s" "listeners_ok s' = listeners_ok s" "quiet s' = quiet s"
    "playing_ok s' = playing_ok s"
    "one_active_source s' = one_active_source s" "anchor_consistent s' = anchor_consistent s"
    "engine_ok s' = engine_ok s"
proof -
  note c = st_cong [OF assms(1,2,3)]
  show a: "refs_ok s' = refs_ok s" by (simp only: refs_ok_def assms c)
  show a': "listeners_ok s' = listeners_ok s" by (simp only: listeners_ok_def assms c)
  show b: "quiet s' = quiet s" by (simp only: quiet_def assms)
  show d: "playing_ok s' = playing_ok s" by (simp only: playing_ok_def assms c)
  show e: "one_active_source s' = one_active_source s"
    by (simp only: one_active_source_def active_sources_def assms c)
  show f: "anchor_consistent s' = anchor_consistent s"
    by (simp only: anchor_consistent_def assms c)
  show "engine_ok s' = engine_ok s" by (simp only: engine_ok_def a a' d e f)
qed

lemma refs_ok_assign_state:
  assumes "refs_ok s" "cur_data s = Some d"
  shows "refs_ok (assign_state ps s)"
proof -
  let ?s = "assign_state ps s"
  note f = assign_state_fields [OF assms(2), where ps = ps]
  from assms(2) obtain t where t: "track s = Some t" "t < length (tracks s)"
      "data (tracks s ! t) = Some d"
    by (auto dest: cur_data_SomeD)
  show ?thesis
    unfolding refs_ok_def
  proof (intro conjI allI impI ballI)
    fix t' assume "track ?s = Some t'"
    then show "t' < length (tracks ?s)" using assms(1) by (simp add: f refs_ok_def)
  next
    fix st assume "cur_state_ref ?s = Some st"
    then show "st < length (play_states ?s)" by (simp add: f)
  next
    fix t' assume "t' \<in> set (in_flight ?s)"
    then have a: "t' < length (tracks s)" "data (tracks s ! t') = None"
      using assms(1) by (auto simp: f refs_ok_def)
    with t have "track s \<noteq> Some t'" by auto
    from f(12) [OF this] a show "t' < length (tracks ?s)" "data (tracks ?s ! t') = None"
      by (simp_all add: f)
  qed
qed

lemma listeners_ok_grow:
  assumes "listeners_ok s" "sources s' = sources s" "play_states s' = play_states s @ [ps]"
  shows "listeners_ok s'"
  unfolding listeners_ok_def
proof (intro allI impI)
  fix r assume "r < length (sources s')"
  with assms(1,2) obtain st q e where a: "src_onended (sources s ! r) = [st]"
    "deref (play_states s) st = Some (Playing r q e)"
    unfolding listeners_ok_def by fastforce
  then have "st < length (play_states s)" by (simp add: deref_Some)
  then have "deref (play_states s') st = Some (Playing r q e)"
    using a by (simp add: assms deref_append)
  with a show "\<exists>st q e. src_onended (sources s' ! r) = [st] \<and>
          deref (play_states s') st = Some (Playing r q e)"
    by (simp add: assms)
qed

lemma wf_not_playing:
  assumes "refs_ok s" "listeners_ok s" "quiet s" "\<not> is_playing s"
  shows "engine_ok s"
proof -
  from assms(4) have np: "\<And>r q e. cur_state s \<noteq> Some (Playing r q e)"
    by (auto simp: is_playing_def)
  have "playing_ok s" by (simp add: playing_ok_def np)
  moreover have "one_active_source s" using assms(3,4) by (simp add: one_active_paused)
  moreover have "anchor_consistent s" using np
    by (auto simp: anchor_consistent_def split: option.splits play_state.splits)
  ultimately show ?thesis using assms by (simp add: engine_ok_def)
qed

lemma install_paused:
  assumes "refs_ok s" "listeners_ok s" "quiet s" "cur_data s = Some d"
  shows "engine_ok (assign_state (Paused p) s)"
proof -
  let ?s = "assign_state (Paused p) s"
  note f = assign_state_fields [OF assms(4), where ps = "Paused p"]
  have "refs_ok ?s" using assms by (simp add: refs_ok_assign_state)
  moreover have "listeners_ok ?s"
    using assms(2) by (rule listeners_ok_grow) (simp_all add: f)
  moreover have "quiet ?s" using assms(3) by (simp add: quiet_def f)
  moreover have "\<not> is_playing ?s" by (simp add: is_playing_def f)
  ultimately show ?thesis by (rule wf_not_playing)
qed

lemma playFrom_eq:
  assumes "cur_data s = Some d"
  shows "playFrom p s =
     scheduleTimeUpdated
       (assign_state
          (Playing (length (sources s)) False
             (js_sub (nowMillis s) (js_div p (playbackRate s))))
          (s\<lparr>sources := sources s @
               [\<lparr> src_playbackRate = playbackRate s,
                  src_route =
                     (if \<not> js_seq (playbackRate s) (Fin 1) \<and> adjustPitchWithPlaybackRate s
                      then ViaPitchShift
                             (js_mul (Fin 12) (Math_log2 (js_div (Fin 1) (playbackRate s))))
                      else ToGain),
                  src_buffer = buffer d,
                  src_startedAt = ctx_currentTime s,
                  src_offset = js_div p (Fin 1000),
                  src_stopped = False,
                  src_ended = False,
                  src_onended = [length (play_states s)] \<rparr>]\<rparr>))"
  using assms by (simp add: playFrom_def Let_def)

lemma playFrom_fields:
  assumes "cur_data s = Some d"
  shows "cur_state (playFrom p s) =
           Some (Playing (length (sources s)) False
                  (js_sub (nowMillis s) (js_div p (playbackRate s))))"
    and "cur_state_ref (playFrom p s) = Some (length (play_states s))"
    and "cur_data (playFrom p s) = Some (d\<lparr>state := length (play_states s)\<rparr>)"
    and "event_log (playFrom p s) = event_log s"
    and "playbackRate (playFrom p s) = playbackRate s"
    and "ctx_currentTime (playFrom p s) = ctx_currentTime s"
    and "length (sources (playFrom p s)) = Suc (length (sources s))"
    and "play_states (playFrom p s) =
           play_states s @ [Playing (length (sources s)) False
                  (js_sub (nowMillis s) (js_div p (playbackRate s)))]"
    and "track (playFrom p s) = track s"
    and "length (tracks (playFrom p s)) = length (tracks s)"
proof -
  let ?s1 = "s\<lparr>sources := sources s @
               [\<lparr> src_playbackRate = playbackRate s,
                  src_route =
                     (if \<not> js_seq (playbackRate s) (Fin 1) \<and> adjustPitchWithPlaybackRate s
                      then ViaPitchShift
                             (js_mul (Fin 12) (Math_log2 (js_div (Fin 1) (playbackRate s))))
                      else ToGain),
                  src_buffer = buffer d,
                  src_startedAt = ctx_currentTime s,
                  src_offset = js_div p (Fin 1000),
                  src_stopped = False,
                  src_ended = False,
                  src_onended = [length (play_states s)] \<rparr>]\<rparr>"
  let ?st = "Playing (length (sources s)) False
             (js_sub (nowMillis s) (js_div p (playbackRate s)))"
  have cd: "cur_data ?s1 = Some d" using assms by (simp add: st_cong(1) [of ?s1 s])
  note f = assign_state_fields [OF cd, where ps = ?st]
  note eq = playFrom_eq [OF assms, of p]
  let ?s2 = "assign_state ?st ?s1"
  have c: "cur_data (playFrom p s) = cur_data ?s2" "cur_state_ref (playFrom p s) = cur_state_ref ?s2"
    "cur_state (playFrom p s) = cur_state ?s2"
    unfolding eq by (rule st_cong; simp add: scheduleTimeUpdated_def)+
  show "cur_state (playFrom p s) = Some ?st" by (simp add: c f)
  show "cur_state_ref (playFrom p s) = Some (length (play_states s))" by (simp add: c f)
  show "cur_data (playFrom p s) = Some (d\<lparr>state := length (play_states s)\<rparr>)" by (simp add: c f)
  show "event_log (playFrom p s) = event_log s" by (simp add: eq scheduleTimeUpdated_def f)
  show "playbackRate (playFrom p s) = playbackRate s" by (simp add: eq scheduleTimeUpdated_def f)
  show "ctx_currentTime (playFrom p s) = ctx_currentTime s" by (simp add: eq scheduleTimeUpdated_def f)
  show "length (sources (playFrom p s)) = Suc (length (sources s))" by (simp add: eq scheduleTimeUpdated_def f)
  show "play_states (playFrom p s) = play_states s @ [?st]" by (simp add: eq scheduleTimeUpdated_def f)
  show "track (playFrom p s) = track s" by (simp add: eq scheduleTimeUpdated_def f)
  show "length (tracks (playFrom p s)) = length (tracks s)" by (simp add: eq scheduleTimeUpdated_def f)
qed


lemma install_playing_gen:
  assumes "refs_ok s" "listeners_ok s" "quiet s" "cur_data s = Some d"
    and node: "src_playbackRate node = playbackRate s"
      "src_onended node = [length (play_states s)]"
      "\<not> src_stopped node" "\<not> src_ended node"
    and off: "src_offset node = js_div p (Fin 1000)"
    and e: "e = js_sub (js_mul (src_startedAt node) (Fin 1000)) (js_div p (playbackRate s))"
  shows "engine_ok (assign_state (Playing (length (sources s)) False e)
               (s\<lparr>sources := sources s @ [node]\<rparr>))"
proof -
  let ?s1 = "s\<lparr>sources := sources s @ [node]\<rparr>"
  let ?st = "Playing (length (sources s)) False e"
  define s2 where "s2 = assign_state ?st ?s1"
  have cd: "cur_data ?s1 = Some d" using assms(4) by (simp add: st_cong(1) [of ?s1 s])
  note f = assign_state_fields [OF cd, where ps = ?st, folded s2_def]
  have r1: "refs_ok ?s1" using assms(1)
    by (simp add: refs_ok_def st_cong(2) [of ?s1 s])
  have refs: "refs_ok s2" unfolding s2_def using r1 cd by (rule refs_ok_assign_state)
  have lis: "listeners_ok s2"
    unfolding listeners_ok_def
  proof (intro allI impI)
    fix r assume "r < length (sources s2)"
    then have "r < length (sources s) \<or> r = length (sources s)" by (auto simp: f)
    then show "\<exists>st q e. src_onended (sources s2 ! r) = [st] \<and>
          deref (play_states s2) st = Some (Playing r q e)"
    proof
      assume lt: "r < length (sources s)"
      with assms(2) obtain st q' e' where a: "src_onended (sources s ! r) = [st]"
        "deref (play_states s) st = Some (Playing r q' e')"
        unfolding listeners_ok_def by fastforce
      then have "st < length (play_states s)" by (simp add: deref_Some)
      then have "deref (play_states s2) st = Some (Playing r q' e')"
        using a by (simp add: f deref_append)
      with a lt show ?thesis by (simp add: f nth_append)
    next
      assume "r = length (sources s)"
      then show ?thesis by (auto simp: f deref_append node)
    qed
  qed
  have cs: "cur_state s2 = Some ?st" by (simp add: f)
  have pok: "playing_ok s2"
    by (simp add: playing_ok_def f node)
  have one: "one_active_source s2"
    using assms(3)
    by (simp add: one_active_playing [OF cs] f nth_append quiet_def src_active_def
        less_Suc_eq node)
  have anc: "anchor_consistent s2"
    unfolding anchor_consistent_def cs using e off
    by (simp add: f deref_def node) (rule exI [of _ p], simp)
  show ?thesis using refs lis pok one anc by (simp add: engine_ok_def s2_def)
qed

lemma install_playing:
  assumes "refs_ok s" "listeners_ok s" "quiet s" "cur_data s = Some d"
  shows "engine_ok (playFrom p s)"
proof -
  have "engine_ok (scheduleTimeUpdated s') = engine_ok s'" for s'
    by (rule wf_cong) (simp_all add: scheduleTimeUpdated_def)
  then show ?thesis
    unfolding playFrom_eq [OF assms(4)]
    by (simp only:) (rule install_playing_gen [OF assms, where p = p];
        simp add: nowMillis_def)
qed

lemma stopWithoutEnding_eq:
  assumes "deref (play_states s) st = Some (Playing r q e)" "r < length (sources s)"
  shows "stopWithoutEnding st s =
     s\<lparr>play_states := (play_states s)[st := Playing r True e],
       sources := (sources s)[r := (sources s ! r)\<lparr>src_stopped := True\<rparr>]\<rparr>"
  using assms by (simp add: stopWithoutEnding_def deref_def)

lemma stop_current:
  assumes "engine_ok s" "cur_state_ref s = Some st" "cur_state s = Some (Playing r q e)"
  shows "refs_ok (stopWithoutEnding st s)"
    and "listeners_ok (stopWithoutEnding st s)"
    and "quiet (stopWithoutEnding st s)"
    and "cur_data (stopWithoutEnding st s) = cur_data s"
    and "event_log (stopWithoutEnding st s) = event_log s"
    and "playbackRate (stopWithoutEnding st s) = playbackRate s"
    and "ctx_currentTime (stopWithoutEnding st s) = ctx_currentTime s"
    and "track (stopWithoutEnding st s) = track s"
    and "tracks (stopWithoutEnding st s) = tracks s"
    and "in_flight (stopWithoutEnding st s) = in_flight s"
    and "length (play_states (stopWithoutEnding st s)) = length (play_states s)"
    and "length (sources (stopWithoutEnding st s)) = length (sources s)"
    and "deref (play_states (stopWithoutEnding st s)) st = Some (Playing r True e)"
proof -
  let ?s = "stopWithoutEnding st s"
  from assms(2,3) have ds: "deref (play_states s) st = Some (Playing r q e)"
    by (simp add: cur_state_def)
  then have stlt: "st < length (play_states s)" by (simp add: deref_Some)
  from assms(1,3) have rlt: "r < length (sources s)"
    by (simp add: engine_ok_def playing_ok_def)
  note eq = stopWithoutEnding_eq [OF ds rlt]
  show cd: "cur_data ?s = cur_data s" by (simp add: eq cur_data_def cur_track_def)
  show "event_log ?s = event_log s" "playbackRate ?s = playbackRate s"
    "ctx_currentTime ?s = ctx_currentTime s" "track ?s = track s" "tracks ?s = tracks s"
    "in_flight ?s = in_flight s" "length (play_states ?s) = length (play_states s)"
    "length (sources ?s) = length (sources s)"
    by (simp_all add: eq)
  show "deref (play_states ?s) st = Some (Playing r True e)"
    using stlt by (simp add: eq deref_def)
  have "cur_state_ref ?s = cur_state_ref s" by (simp add: cur_state_ref_def cd)
  then show "refs_ok ?s" using assms(1) by (simp add: engine_ok_def refs_ok_def eq)
  show "listeners_ok ?s"
    unfolding listeners_ok_def
  proof (intro allI impI)
    fix i assume "i < length (sources ?s)"
    then have ilt: "i < length (sources s)" by (simp add: eq)
    with assms(1) obtain sti qi ei where a: "src_onended (sources s ! i) = [sti]"
      "deref (play_states s) sti = Some (Playing i qi ei)"
      unfolding engine_ok_def listeners_ok_def by fastforce
    have l: "src_onended (sources ?s ! i) = [sti]"
      using a(1) ilt by (cases "i = r") (simp_all add: eq)
    show "\<exists>st q e. src_onended (sources ?s ! i) = [st] \<and>
          deref (play_states ?s) st = Some (Playing i q e)"
    proof (cases "sti = st")
      case True
      with a(2) ds have "i = r" by simp
      with True l stlt show ?thesis by (auto simp: eq deref_def)
    next
      case False
      with a(2) have "deref (play_states ?s) sti = Some (Playing i qi ei)"
        by (simp add: eq deref_update)
      with l show ?thesis by simp
    qed
  qed
  from assms(1,3) have act: "\<forall>i < length (sources s). src_active (sources s ! i) \<longrightarrow> i = r"
    by (simp add: engine_ok_def one_active_playing)
  show "quiet ?s"
    unfolding quiet_def
  proof (intro allI impI)
    fix i assume "i < length (sources ?s)"
    then have ilt: "i < length (sources s)" by (simp add: eq)
    show "\<not> src_active (sources ?s ! i)"
    proof (cases "i = r")
      case True
      then show ?thesis using rlt by (simp add: eq src_active_def)
    next
      case False
      then show ?thesis using act ilt by (auto simp: eq)
    qed
  qed
qed

lemma wf_quiet:
  assumes "engine_ok s" "\<not> is_playing s"
  shows "quiet s"
  using assms by (simp add: engine_ok_def one_active_paused)

lemma is_playing_iff: "is_playing s \<longleftrightarrow> (\<exists>r q e. cur_state s = Some (Playing r q e))"
  by (auto simp: is_playing_def split: option.splits play_state.splits)


lemma sendEvent_frame [simp]:
  "engine_ok (sendEvent ev s) = engine_ok s" "refs_ok (sendEvent ev s) = refs_ok s" "listeners_ok (sendEvent ev s) = listeners_ok s"
  "quiet (sendEvent ev s) = quiet s" "cur_data (sendEvent ev s) = cur_data s"
  "cur_state_ref (sendEvent ev s) = cur_state_ref s" "cur_state (sendEvent ev s) = cur_state s"
  "is_playing (sendEvent ev s) = is_playing s"
  "track (sendEvent ev s) = track s" "tracks (sendEvent ev s) = tracks s"
  "play_states (sendEvent ev s) = play_states s" "sources (sendEvent ev s) = sources s"
  "in_flight (sendEvent ev s) = in_flight s" "playbackRate (sendEvent ev s) = playbackRate s"
  "ctx_currentTime (sendEvent ev s) = ctx_currentTime s"
proof -
  show c: "track (sendEvent ev s) = track s" "tracks (sendEvent ev s) = tracks s"
    "play_states (sendEvent ev s) = play_states s" "sources (sendEvent ev s) = sources s"
    "in_flight (sendEvent ev s) = in_flight s" "playbackRate (sendEvent ev s) = playbackRate s"
    "ctx_currentTime (sendEvent ev s) = ctx_currentTime s"
    by (simp_all add: sendEvent_def)
  show "engine_ok (sendEvent ev s) = engine_ok s" "refs_ok (sendEvent ev s) = refs_ok s"
    "listeners_ok (sendEvent ev s) = listeners_ok s" "quiet (sendEvent ev s) = quiet s"
    by (rule wf_cong; simp only: c)+
  show "cur_data (sendEvent ev s) = cur_data s" "cur_state_ref (sendEvent ev s) = cur_state_ref s"
    "cur_state (sendEvent ev s) = cur_state s" "is_playing (sendEvent ev s) = is_playing s"
    by (rule st_cong; simp only: c)+
qed

lemma dispatchError_frame [simp]:
  "engine_ok (dispatchError err s) = engine_ok s" "refs_ok (dispatchError err s) = refs_ok s" "listeners_ok (dispatchError err s) = listeners_ok s"
  "quiet (dispatchError err s) = quiet s" "cur_data (dispatchError err s) = cur_data s"
  "cur_state_ref (dispatchError err s) = cur_state_ref s" "cur_state (dispatchError err s) = cur_state s"
  "is_playing (dispatchError err s) = is_playing s"
  "track (dispatchError err s) = track s" "tracks (dispatchError err s) = tracks s"
  "play_states (dispatchError err s) = play_states s" "sources (dispatchError err s) = sources s"
  "in_flight (dispatchError err s) = in_flight s" "playbackRate (dispatchError err s) = playbackRate s"
  "ctx_currentTime (dispatchError err s) = ctx_currentTime s"
proof -
  show c: "track (dispatchError err s) = track s" "tracks (dispatchError err s) = tracks s"
    "play_states (dispatchError err s) = play_states s" "sources (dispatchError err s) = sources s"
    "in_flight (dispatchError err s) = in_flight s" "playbackRate (dispatchError err s) = playbackRate s"
    "ctx_currentTime (dispatchError err s) = ctx_currentTime s"
    by (simp_all add: dispatchError_def)
  show "engine_ok (dispatchError err s) = engine_ok s" "refs_ok (dispatchError err s) = refs_ok s"
    "listeners_ok (dispatchError err s) = listeners_ok s" "quiet (dispatchError err s) = quiet s"
    by (rule wf_cong; simp only: c)+
  show "cur_data (dispatchError err s) = cur_data s" "cur_state_ref (dispatchError err s) = cur_state_ref s"
    "cur_state (dispatchError err s) = cur_state s" "is_playing (dispatchError err s) = is_playing s"
    by (rule st_cong; simp only: c)+
qed

lemma updateGain_frame [simp]:
  "engine_ok (updateGain s) = engine_ok s" "refs_ok (updateGain s) = refs_ok s" "listeners_ok (updateGain s) = listeners_ok s"
  "quiet (updateGain s) = quiet s" "cur_data (updateGain s) = cur_data s"
  "cur_state_ref (updateGain s) = cur_state_ref s" "cur_state (updateGain s) = cur_state s"
  "is_playing (updateGain s) = is_playing s"
  "track (updateGain s) = track s" "tracks (updateGain s) = tracks s"
  "play_states (updateGain s) = play_states s" "sources (updateGain s) = sources s"
  "in_flight (updateGain s) = in_flight s" "playbackRate (updateGain s) = playbackRate s"
  "ctx_currentTime (updateGain s) = ctx_currentTime s"
proof -
  show c: "track (updateGain s) = track s" "tracks (updateGain s) = tracks s"
    "play_states (updateGain s) = play_states s" "sources (updateGain s) = sources s"
    "in_flight (updateGain s) = in_flight s" "playbackRate (updateGain s) = playbackRate s"
    "ctx_currentTime (updateGain s) = ctx_currentTime s"
    by (simp_all add: updateGain_def)
  show "engine_ok (updateGain s) = engine_ok s" "refs_ok (updateGain s) = refs_ok s"
    "listeners_ok (updateGain s) = listeners_ok s" "quiet (updateGain s) = quiet s"
    by (rule wf_cong; simp only: c)+
  show "cur_data (updateGain s) = cur_data s" "cur_state_ref (updateGain s) = cur_state_ref s"
    "cur_state (updateGain s) = cur_state s" "is_playing (updateGain s) = is_playing s"
    by (rule st_cong; simp only: c)+
qed

lemma scheduleTimeUpdated_frame [simp]:
  "engine_ok (scheduleTimeUpdated s) = engine_ok s" "refs_ok (scheduleTimeUpdated s) = refs_ok s" "listeners_ok (scheduleTimeUpdated s) = listeners_ok s"
  "quiet (scheduleTimeUpdated s) = quiet s" "cur_data (scheduleTimeUpdated s) = cur_data s"
  "cur_state_ref (scheduleTimeUpdated s) = cur_state_ref s" "cur_state (scheduleTimeUpdated s) = cur_state s"
  "is_playing (scheduleTimeUpdated s) = is_playing s"
  "track (scheduleTimeUpdated s) = track s" "tracks (scheduleTimeUpdated s) = tracks s"
  "play_states (scheduleTimeUpdated s) = play_states s" "sources (scheduleTimeUpdated s) = sources s"
  "in_flight (scheduleTimeUpdated s) = in_flight s" "playbackRate (scheduleTimeUpdated s) = playbackRate s"
  "ctx_currentTime (scheduleTimeUpdated s) = ctx_currentTime s"
proof -
  show c: "track (scheduleTimeUpdated s) = track s" "tracks (scheduleTimeUpdated s) = tracks s"
    "play_states (scheduleTimeUpdated s) = play_states s" "sources (scheduleTimeUpdated s) = sources s"
    "in_flight (scheduleTimeUpdated s) = in_flight s" "playbackRate (scheduleTimeUpdated s) = playbackRate s"
    "ctx_currentTime (scheduleTimeUpdated s) = ctx_currentTime s"
    by (simp_all add: scheduleTimeUpdated_def)
  show "engine_ok (scheduleTimeUpdated s) = engine_ok s" "refs_ok (scheduleTimeUpdated s) = refs_ok s"
    "listeners_ok (scheduleTimeUpdated s) = listeners_ok s" "quiet (scheduleTimeUpdated s) = quiet s"
    by (rule wf_cong; simp only: c)+
  show "cur_data (scheduleTimeUpdated s) = cur_data s" "cur_state_ref (scheduleTimeUpdated s) = cur_state_ref s"
    "cur_state (scheduleTimeUpdated s) = cur_state s" "is_playing (scheduleTimeUpdated s) = is_playing s"
    by (rule st_cong; simp only: c)+
qed

lemma resumeIfSuspended_frame [simp]:
  "engine_ok (resumeIfSuspended s) = engine_ok s" "refs_ok (resumeIfSuspended s) = refs_ok s" "listeners_ok (resumeIfSuspended s) = listeners_ok s"
  "quiet (resumeIfSuspended s) = quiet s" "cur_data (resumeIfSuspended s) = cur_data s"
  "cur_state_ref (resumeIfSuspended s) = cur_state_ref s" "cur_state (resumeIfSuspended s) = cur_state s"
  "is_playing (resumeIfSuspended s) = is_playing s"
  "track (resumeIfSuspended s) = track s" "tracks (resumeIfSuspended s) = tracks s"
  "play_states (resumeIfSuspended s) = play_states s" "sources (resumeIfSuspended s) = sources s"
  "in_flight (resumeIfSuspended s) = in_flight s" "playbackRate (resumeIfSuspended s) = playbackRate s"
  "ctx_currentTime (resumeIfSuspended s) = ctx_currentTime s"
proof -
  show c: "track (resumeIfSuspended s) = track s" "tracks (resumeIfSuspended s) = tracks s"
    "play_states (resumeIfSuspended s) = play_states s" "sources (resumeIfSuspended s) = sources s"
    "in_flight (resumeIfSuspended s) = in_flight s" "playbackRate (resumeIfSuspended s) = playbackRate s"
    "ctx_currentTime (resumeIfSuspended s) = ctx_currentTime s"
    by (simp_all add: resumeIfSuspended_def)
  show "engine_ok (resumeIfSuspended s) = engine_ok s" "refs_ok (resumeIfSuspended s) = refs_ok s"
    "listeners_ok (resumeIfSuspended s) = listeners_ok s" "quiet (resumeIfSuspended s) = quiet s"
    by (rule wf_cong; simp only: c)+
  show "cur_data (resumeIfSuspended s) = cur_data s" "cur_state_ref (resumeIfSuspended s) = cur_state_ref s"
    "cur_state (resumeIfSuspended s) = cur_state s" "is_playing (resumeIfSuspended s) = is_playing s"
    by (rule st_cong; simp only: c)+
qed

lemma event_log_frames [simp]:
  "event_log (sendEvent ev s) = event_log s @ [PreciseAudioEvent ev]"
  "event_log (dispatchError err s) = event_log s @ [ErrorEvent err]"
  "event_log (updateGain s) = event_log s"
  "event_log (scheduleTimeUpdated s) = event_log s"
  "event_log (resumeIfSuspended s) = event_log s"
  by (simp_all add: sendEvent_def dispatchError_def updateGain_def scheduleTimeUpdated_def
      resumeIfSuspended_def)

lemma nowMillis_frames [simp]:
  "nowMillis (sendEvent ev s) = nowMillis s"
  "nowMillis (resumeIfSuspended s) = nowMillis s"
  by (simp_all add: nowMillis_def)

lemma play_paused:
  assumes "engine_ok s" "cur_state s = Some (Paused p)"
  shows "engine_ok (play s)"
    and "cur_state (play s) =
           Some (Playing (length (sources s)) False
                  (js_sub (nowMillis s) (js_div p (playbackRate s))))"
    and "cur_state_ref (play s) = Some (length (play_states s))"
    and "event_log (play s) = event_log s @ [PreciseAudioEvent Play]"
    and "playbackRate (play s) = playbackRate s"
    and "ctx_currentTime (play s) = ctx_currentTime s"
    and "length (sources (play s)) = Suc (length (sources s))"
proof -
  let ?s1 = "resumeIfSuspended s"
  from assms(2) obtain d where d: "cur_data ?s1 = Some d"
    by (auto dest: cur_state_SomeD)
  have eq: "play s = sendEvent Play (playFrom p ?s1)"
    using assms(2) by (simp add: play_def Let_def)
  have np: "\<not> is_playing s" using assms(2) by (simp add: is_playing_def)
  have q: "quiet ?s1" using wf_quiet [OF assms(1) np] by simp
  have "refs_ok ?s1" "listeners_ok ?s1" using assms(1) by (simp_all add: engine_ok_def)
  from install_playing [OF this q d]
  show "engine_ok (play s)" by (simp add: eq)
  note f = playFrom_fields [OF d, of p]
  show "cur_state (play s) =
           Some (Playing (length (sources s)) False
                  (js_sub (nowMillis s) (js_div p (playbackRate s))))"
    "cur_state_ref (play s) = Some (length (play_states s))"
    "event_log (play s) = event_log s @ [PreciseAudioEvent Play]"
    "playbackRate (play s) = playbackRate s"
    "ctx_currentTime (play s) = ctx_currentTime s"
    "length (sources (play s)) = Suc (length (sources s))"
    by (simp_all add: eq f)
qed

lemma play_other:
  assumes "\<And>p. cur_state s \<noteq> Some (Paused p)"
  shows "play s = resumeIfSuspended s"
  using assms by (auto simp: play_def Let_def split: option.splits play_state.splits)

lemma wf_play: "engine_ok s \<Longrightarrow> engine_ok (play s)"
proof (cases "\<exists>p. cur_state s = Some (Paused p)")
  case True
  assume "engine_ok s"
  with True show ?thesis by (auto simp: play_paused(1))
next
  case False
  assume "engine_ok s"
  with False show ?thesis by (simp add: play_other)
qed

lemma pause_playing:
  assumes "engine_ok s" "cur_state_ref s = Some st" "cur_state s = Some (Playing r q e)"
  shows "engine_ok (pause s)"
    and "cur_state (pause s) =
           Some (Paused (js_mul (js_sub (nowMillis s) e) (playbackRate s)))"
    and "cur_state_ref (pause s) = Some (length (play_states s))"
    and "event_log (pause s) = event_log s @ [PreciseAudioEvent Pause]"
    and "playbackRate (pause s) = playbackRate s"
    and "ctx_currentTime (pause s) = ctx_currentTime s"
    and "sources (pause s) = sources (stopWithoutEnding st s)"
    and "deref (play_states (pause s)) st = Some (Playing r True e)"
proof -
  let ?s1 = "resumeIfSuspended s"
  let ?p = "Paused (js_mul (js_sub (nowMillis s) e) (playbackRate s))"
  have w1: "engine_ok ?s1" "cur_state_ref ?s1 = Some st" "cur_state ?s1 = Some (Playing r q e)"
    using assms by simp_all
  then have ds: "deref (play_states ?s1) st = Some (Playing r q e)"
    by (simp add: cur_state_def)
  have eq: "pause s = sendEvent Pause (assign_state ?p (stopWithoutEnding st ?s1))"
    using w1(2) ds by (simp add: pause_def Let_def)
  note sc = stop_current [OF w1]
  from w1(3) obtain d where d: "cur_data ?s1 = Some d" by (auto dest: cur_state_SomeD)
  then have d': "cur_data (stopWithoutEnding st ?s1) = Some d" by (simp add: sc)
  note f = assign_state_fields [OF d', where ps = ?p]
  from install_paused [OF sc(1,2,3) d']
  show "engine_ok (pause s)" by (simp add: eq)
  show "cur_state (pause s) = Some ?p"
    "cur_state_ref (pause s) = Some (length (play_states s))"
    "event_log (pause s) = event_log s @ [PreciseAudioEvent Pause]"
    "playbackRate (pause s) = playbackRate s"
    "ctx_currentTime (pause s) = ctx_currentTime s"
    using sc(11) by (simp_all add: eq f sc)
  have "sources (stopWithoutEnding st ?s1) = sources (stopWithoutEnding st s)"
    by (simp add: stopWithoutEnding_def resumeIfSuspended_def
        split: option.splits play_state.splits)
  then show "sources (pause s) = sources (stopWithoutEnding st s)"
    by (simp add: eq f)
  have "st < length (play_states (stopWithoutEnding st ?s1))"
    using sc(13) by (simp add: deref_Some)
  then show "deref (play_states (pause s)) st = Some (Playing r True e)"
    using sc(13) by (simp add: eq f deref_append)
qed

lemma pause_other:
  assumes "\<not> is_playing s"
  shows "pause s = resumeIfSuspended s"
  using assms
  by (auto simp: pause_def Let_def is_playing_def cur_state_def
      split: option.splits play_state.splits)

lemma wf_pause: "engine_ok s \<Longrightarrow> engine_ok (pause s)"
proof (cases "is_playing s")
  case True
  assume w: "engine_ok s"
  from True obtain r q e where c: "cur_state s = Some (Playing r q e)"
    by (auto simp: is_playing_iff)
  then obtain st where "cur_state_ref s = Some st"
    by (auto simp: cur_state_def split: Option.bind_splits)
  from pause_playing(1) [OF w this c] show ?thesis .
next
  case False
  assume "engine_ok s"
  with False show ?thesis by (simp add: pause_other)
qed


lemma seek_paused_wf:
  assumes "engine_ok s" "cur_data s = Some d" "deref (play_states s) (state d) = Some (Paused p)"
  shows "engine_ok (s\<lparr>play_states := (play_states s)[state d := Paused pm]\<rparr>)"
proof -
  let ?s = "s\<lparr>play_states := (play_states s)[state d := Paused pm]\<rparr>"
  have cd: "cur_data ?s = Some d" using assms(2) by (simp add: cur_data_def cur_track_def)
  from assms(3) have lt: "state d < length (play_states s)" by (simp add: deref_Some)
  have cs: "cur_state s = Some (Paused p)" using assms(2,3) by (simp add: cur_state_eq)
  then have np: "\<not> is_playing s" by (simp add: is_playing_def)
  have "cur_state ?s = Some (Paused pm)" using lt by (simp add: cur_state_eq [OF cd] deref_def)
  then have np': "\<not> is_playing ?s" by (simp add: is_playing_def)
  have "cur_state_ref ?s = cur_state_ref s" using cd assms(2) by (simp add: cur_state_ref_def)
  then have r: "refs_ok ?s" using assms(1) by (simp add: engine_ok_def refs_ok_def)
  have l: "listeners_ok ?s"
    unfolding listeners_ok_def
  proof (intro allI impI)
    fix i assume "i < length (sources ?s)"
    with assms(1) obtain sti qi ei where a: "src_onended (sources s ! i) = [sti]"
      "deref (play_states s) sti = Some (Playing i qi ei)"
      unfolding engine_ok_def listeners_ok_def by fastforce
    with assms(3) have "sti \<noteq> state d" by auto
    with a(2) have "deref (play_states ?s) sti = Some (Playing i qi ei)"
      by (simp add: deref_update)
    with a(1) show "\<exists>st q e. src_onended (sources ?s ! i) = [st] \<and>
          deref (play_states ?s) st = Some (Playing i q e)" by simp
  qed
  have q: "quiet ?s" using wf_quiet [OF assms(1) np] by (simp add: quiet_def)
  from r l q np' show ?thesis by (rule wf_not_playing)
qed

lemma wf_set_currentTime: "engine_ok s \<Longrightarrow> engine_ok (set_currentTime x s)"
proof (cases "cur_data s")
  case None
  assume "engine_ok s"
  with None show ?thesis by (simp add: set_currentTime_def)
next
  case (Some d)
  assume w: "engine_ok s"
  show ?thesis
  proof (cases "deref (play_states s) (state d)")
    case None
    with Some w show ?thesis by (simp add: set_currentTime_def)
  next
    case (Some ps)
    note ps = this
    show ?thesis
    proof (cases ps)
      case (Paused p)
      with \<open>cur_data s = Some d\<close> ps w show ?thesis
        by (simp add: set_currentTime_def seek_paused_wf)
    next
      case (Playing r q e)
      have c: "cur_state_ref s = Some (state d)" "cur_state s = Some (Playing r q e)"
        using \<open>cur_data s = Some d\<close> ps Playing by (simp_all add: cur_state_eq)
      note sc = stop_current [OF w c]
      have "cur_data (stopWithoutEnding (state d) s) = Some d"
        using \<open>cur_data s = Some d\<close> by (simp add: sc)
      from install_playing [OF sc(1,2,3) this]
      show ?thesis using \<open>cur_data s = Some d\<close> ps Playing
        by (simp add: set_currentTime_def)
    qed
  qed
qed

lemma wf_changeConfiguration:
  assumes "engine_ok s"
    and cb: "\<And>x. refs_ok (callback x) = refs_ok x" "\<And>x. listeners_ok (callback x) = listeners_ok x"
      "\<And>x. quiet (callback x) = quiet x" "\<And>x. cur_state (callback x) = cur_state x"
  shows "engine_ok (changeConfiguration callback s)"
proof -
  have idle: "engine_ok (callback x)" if "engine_ok x" "\<not> is_playing x" for x
  proof -
    have "\<not> is_playing (callback x)" using that(2) by (simp add: is_playing_def cb)
    moreover have "refs_ok (callback x)" "listeners_ok (callback x)" "quiet (callback x)"
      using that wf_quiet [OF that] by (simp_all add: cb engine_ok_def)
    ultimately show ?thesis by (simp add: wf_not_playing)
  qed
  show ?thesis
  proof (cases "is_playing s")
    case True
    then obtain r q e where c: "cur_state s = Some (Playing r q e)"
      by (auto simp: is_playing_iff)
    then obtain st where st: "cur_state_ref s = Some st"
      by (auto simp: cur_state_def split: Option.bind_splits)
    note pp = pause_playing [OF assms(1) st c]
    have "\<not> is_playing (pause s)" by (simp add: is_playing_def pp)
    with pp(1) have "engine_ok (callback (pause s))" by (rule idle)
    then have "engine_ok (play (callback (pause s)))" by (rule wf_play)
    with True show ?thesis by (simp add: changeConfiguration_def)
  next
    case False
    with assms(1) have "engine_ok (callback s)" by (rule idle)
    with False show ?thesis by (simp add: changeConfiguration_def)
  qed
qed

lemma rate_callback_frame:
  "refs_ok (x\<lparr>playbackRate := k\<rparr>) = refs_ok x"
  "listeners_ok (x\<lparr>playbackRate := k\<rparr>) = listeners_ok x"
  "quiet (x\<lparr>playbackRate := k\<rparr>) = quiet x"
  "cur_state (x\<lparr>playbackRate := k\<rparr>) = cur_state x"
  "cur_state_ref (x\<lparr>playbackRate := k\<rparr>) = cur_state_ref x"
  by (simp_all add: refs_ok_def listeners_ok_def quiet_def cur_state_def cur_state_ref_def
      cur_data_def cur_track_def)

lemma pitch_callback_frame:
  "refs_ok (x\<lparr>adjustPitchWithPlaybackRate := a\<rparr>) = refs_ok x"
  "listeners_ok (x\<lparr>adjustPitchWithPlaybackRate := a\<rparr>) = listeners_ok x"
  "quiet (x\<lparr>adjustPitchWithPlaybackRate := a\<rparr>) = quiet x"
  "cur_state (x\<lparr>adjustPitchWithPlaybackRate := a\<rparr>) = cur_state x"
  by (simp_all add: refs_ok_def listeners_ok_def quiet_def cur_state_def cur_state_ref_def
      cur_data_def cur_track_def)

lemma wf_set_playbackRate: "engine_ok s \<Longrightarrow> engine_ok (set_playbackRate k s)"
proof -
  assume "engine_ok s"
  then have "engine_ok (changeConfiguration (\<lambda>s'. s'\<lparr>playbackRate := k\<rparr>) s)"
    by (rule wf_changeConfiguration) (simp_all add: rate_callback_frame)
  then show ?thesis by (simp add: set_playbackRate_def)
qed

lemma wf_set_adjustPitchWithPlaybackRate:
  "engine_ok s \<Longrightarrow> engine_ok (set_adjustPitchWithPlaybackRate a s)"
  unfolding set_adjustPitchWithPlaybackRate_def
  by (rule wf_changeConfiguration) (simp_all add: pitch_callback_frame)


lemma stopIfPlaying_quiet:
  assumes "engine_ok s"
  shows "refs_ok (stopIfPlaying s)" "listeners_ok (stopIfPlaying s)" "quiet (stopIfPlaying s)"
    "track (stopIfPlaying s) = track s" "tracks (stopIfPlaying s) = tracks s"
    "in_flight (stopIfPlaying s) = in_flight s" "event_log (stopIfPlaying s) = event_log s"
    "length (play_states (stopIfPlaying s)) = length (play_states s)"
    "length (sources (stopIfPlaying s)) = length (sources s)"
proof -
  have "refs_ok (stopIfPlaying s) \<and> listeners_ok (stopIfPlaying s) \<and> quiet (stopIfPlaying s)
    \<and> track (stopIfPlaying s) = track s \<and> tracks (stopIfPlaying s) = tracks s
    \<and> in_flight (stopIfPlaying s) = in_flight s \<and> event_log (stopIfPlaying s) = event_log s
    \<and> length (play_states (stopIfPlaying s)) = length (play_states s)
    \<and> length (sources (stopIfPlaying s)) = length (sources s)"
  proof (cases "is_playing s")
    case True
    then obtain r q e where c: "cur_state s = Some (Playing r q e)"
      by (auto simp: is_playing_iff)
    then obtain st where st: "cur_state_ref s = Some st"
      by (auto simp: cur_state_def split: Option.bind_splits)
    note sc = stop_current [OF assms st c]
    have "stopIfPlaying s = stopWithoutEnding st s"
      using True st by (simp add: stopIfPlaying_def)
    with sc show ?thesis by simp
  next
    case False
    then have "stopIfPlaying s = s"
      by (simp add: stopIfPlaying_def split: option.splits)
    with assms wf_quiet [OF assms False] show ?thesis by (simp add: engine_ok_def)
  qed
  then show "refs_ok (stopIfPlaying s)" "listeners_ok (stopIfPlaying s)" "quiet (stopIfPlaying s)"
    "track (stopIfPlaying s) = track s" "tracks (stopIfPlaying s) = tracks s"
    "in_flight (stopIfPlaying s) = in_flight s" "event_log (stopIfPlaying s) = event_log s"
    "length (play_states (stopIfPlaying s)) = length (play_states s)"
    "length (sources (stopIfPlaying s)) = length (sources s)"
    by simp_all
qed

lemma new_track_wf:
  assumes "refs_ok s" "listeners_ok s" "quiet s" "data tr = None"
  shows "engine_ok (s\<lparr>track := Some (length (tracks s)), tracks := tracks s @ [tr],
                      in_flight := in_flight s @ [length (tracks s)]\<rparr>)"
proof -
  let ?s = "s\<lparr>track := Some (length (tracks s)), tracks := tracks s @ [tr],
                      in_flight := in_flight s @ [length (tracks s)]\<rparr>"
  have cd: "cur_data ?s = None" using assms(4) by (simp add: cur_data_def cur_track_def deref_def)
  note cs = cur_state_no_data [OF cd]
  have "refs_ok ?s" using assms(1,4) by (auto simp: refs_ok_def cs nth_append)
  moreover have "listeners_ok ?s" using assms(2) by (simp add: listeners_ok_def)
  moreover have "quiet ?s" using assms(3) by (simp add: quiet_def)
  moreover have "\<not> is_playing ?s" by (simp add: is_playing_def cs)
  ultimately show ?thesis by (rule wf_not_playing)
qed

lemma no_track_wf:
  assumes "refs_ok s" "listeners_ok s" "quiet s"
  shows "engine_ok (s\<lparr>track := None\<rparr>)"
proof -
  let ?s = "s\<lparr>track := None\<rparr>"
  have cd: "cur_data ?s = None" by (simp add: cur_data_def cur_track_def)
  note cs = cur_state_no_data [OF cd]
  have "refs_ok ?s" using assms(1) by (simp add: refs_ok_def cs)
  moreover have "listeners_ok ?s" using assms(2) by (simp add: listeners_ok_def)
  moreover have "quiet ?s" using assms(3) by (simp add: quiet_def)
  moreover have "\<not> is_playing ?s" by (simp add: is_playing_def cs)
  ultimately show ?thesis by (rule wf_not_playing)
qed

lemma wf_loadAudioFile: "engine_ok s \<Longrightarrow> engine_ok (snd (loadAudioFile f s))"
  using new_track_wf [of "stopIfPlaying s" "\<lparr>source = File f, data = None\<rparr>"]
  by (simp add: loadAudioFile_def Let_def stopIfPlaying_quiet)

lemma wf_set_src: "engine_ok s \<Longrightarrow> engine_ok (set_src u s)"
  using new_track_wf [of "stopIfPlaying s" "\<lparr>source = Src u, data = None\<rparr>"]
    no_track_wf [of "stopIfPlaying s"]
  by (simp add: set_src_def Let_def stopIfPlaying_quiet)

lemma wf_set_volume: "engine_ok s \<Longrightarrow> engine_ok (set_volume v s)"
proof -
  have "engine_ok (x\<lparr>volume := k\<rparr>) = engine_ok x" for x k
    by (rule wf_cong) simp_all
  then show "engine_ok s \<Longrightarrow> engine_ok (set_volume v s)"
    by (simp add: set_volume_def Let_def)
qed

lemma wf_set_muted: "engine_ok s \<Longrightarrow> engine_ok (set_muted m s)"
proof -
  have "engine_ok (x\<lparr>muted := k\<rparr>) = engine_ok x" for x k
    by (rule wf_cong) simp_all
  then show "engine_ok s \<Longrightarrow> engine_ok (set_muted m s)"
    by (simp add: set_muted_def)
qed

lemma wf_animation_frame: "engine_ok s \<Longrightarrow> engine_ok (animation_frame s)"
proof -
  have "engine_ok (x\<lparr>frame_pending := k\<rparr>) = engine_ok x" for x k
    by (rule wf_cong) simp_all
  then show "engine_ok s \<Longrightarrow> engine_ok (animation_frame s)"
    by (simp add: animation_frame_def timeUpdated_def Let_def split: option.splits)
qed

lemma wf_clock: "engine_ok s \<Longrightarrow> engine_ok (s\<lparr>ctx_currentTime := k\<rparr>)"
proof -
  have "engine_ok (s\<lparr>ctx_currentTime := k\<rparr>) = engine_ok s"
    by (rule wf_cong) simp_all
  then show "engine_ok s \<Longrightarrow> engine_ok (s\<lparr>ctx_currentTime := k\<rparr>)" by simp
qed

lemma wf_new: "engine_ok (new_PreciseAudio t0 c)"
  by (rule wf_not_playing)
    (simp_all add: new_PreciseAudio_def refs_ok_def listeners_ok_def quiet_def is_playing_def
      cur_state_def cur_state_ref_def cur_data_def cur_track_def)

lemma in_flight_frame:
  "listeners_ok (s\<lparr>in_flight := fl\<rparr>) = listeners_ok s"
  "quiet (s\<lparr>in_flight := fl\<rparr>) = quiet s"
  "cur_data (s\<lparr>in_flight := fl\<rparr>) = cur_data s"
  "cur_state_ref (s\<lparr>in_flight := fl\<rparr>) = cur_state_ref s"
  "cur_state (s\<lparr>in_flight := fl\<rparr>) = cur_state s"
  "is_playing (s\<lparr>in_flight := fl\<rparr>) = is_playing s"
  "playing_ok (s\<lparr>in_flight := fl\<rparr>) = playing_ok s"
  "one_active_source (s\<lparr>in_flight := fl\<rparr>) = one_active_source s"
  "anchor_consistent (s\<lparr>in_flight := fl\<rparr>) = anchor_consistent s"
proof -
  note c = st_cong [of "s\<lparr>in_flight := fl\<rparr>" s, simplified]
  show "cur_data (s\<lparr>in_flight := fl\<rparr>) = cur_data s"
    "cur_state_ref (s\<lparr>in_flight := fl\<rparr>) = cur_state_ref s"
    "cur_state (s\<lparr>in_flight := fl\<rparr>) = cur_state s"
    "is_playing (s\<lparr>in_flight := fl\<rparr>) = is_playing s"
    by (rule c)+
  show "listeners_ok (s\<lparr>in_flight := fl\<rparr>) = listeners_ok s"
    "quiet (s\<lparr>in_flight := fl\<rparr>) = quiet s"
    by (simp_all add: listeners_ok_def quiet_def)
  show "playing_ok (s\<lparr>in_flight := fl\<rparr>) = playing_ok s"
    by (simp add: playing_ok_def c)
  show "one_active_source (s\<lparr>in_flight := fl\<rparr>) = one_active_source s"
    by (simp add: one_active_source_def active_sources_def c)
  show "anchor_consistent (s\<lparr>in_flight := fl\<rparr>) = anchor_consistent s"
    by (simp add: anchor_consistent_def c cong: option.case_cong play_state.case_cong)
qed

lemma landed_wf:
  assumes "engine_ok s" "t \<in> set (in_flight s)"
  shows "engine_ok (s\<lparr>in_flight := removeAll t (in_flight s)\<rparr>)"
proof -
  have "refs_ok (s\<lparr>in_flight := removeAll t (in_flight s)\<rparr>)"
    using assms(1) by (simp add: engine_ok_def refs_ok_def in_flight_frame)
  with assms(1) show ?thesis by (simp add: engine_ok_def in_flight_frame)
qed

lemma loadFile_Inl: "loadFile t (Inl e) s = (Inl e, s)"
  by (simp add: loadFile_def)

lemma loadFile_stale: "track s \<noteq> Some t \<Longrightarrow> loadFile t (Inr buf) s = (Inr (), s)"
  by (simp add: loadFile_def)

lemma loadFile_current:
  assumes "track s = Some t" "t < length (tracks s)"
  shows "loadFile t (Inr buf) s =
     (Inr (),
      sendEvent Timeupdate (sendEvent Canplaythrough (sendEvent Canplay (sendEvent Loadeddata
        (s\<lparr>tracks := (tracks s)[t := (tracks s ! t)\<lparr>data :=
                 Some \<lparr>buffer = buf, state = length (play_states s)\<rparr>\<rparr>],
           play_states := play_states s @ [Paused (Fin 0)]\<rparr>)))))"
  using assms by (simp add: loadFile_def deref_def)


lemma loadFile_wf:
  assumes "engine_ok s" "t \<in> set (in_flight s)"
  shows "engine_ok (snd (loadFile t loaded (s\<lparr>in_flight := removeAll t (in_flight s)\<rparr>)))"
proof -
  let ?s0 = "s\<lparr>in_flight := removeAll t (in_flight s)\<rparr>"
  note w0 = landed_wf [OF assms]
  from assms have t: "t < length (tracks s)" "data (tracks s ! t) = None"
    by (auto simp: engine_ok_def refs_ok_def)
  show ?thesis
  proof (cases loaded)
    case (Inl e)
    with w0 show ?thesis by (simp add: loadFile_Inl)
  next
    case (Inr buf)
    show ?thesis
    proof (cases "track s = Some t")
      case False
      with w0 Inr show ?thesis by (simp add: loadFile_stale)
    next
      case True
      define s2 where "s2 = s\<lparr>in_flight := removeAll t (in_flight s),
           tracks := (tracks s)[t := (tracks s ! t)\<lparr>data :=
                 Some \<lparr>buffer = buf, state = length (play_states s)\<rparr>\<rparr>],
           play_states := play_states s @ [Paused (Fin 0)]\<rparr>"
      have f: "track s2 = Some t" "length (tracks s2) = length (tracks s)"
        "tracks s2 ! t = (tracks s ! t)\<lparr>data :=
                 Some \<lparr>buffer = buf, state = length (play_states s)\<rparr>\<rparr>"
        "\<And>t'. t' \<noteq> t \<Longrightarrow> tracks s2 ! t' = tracks s ! t'"
        "play_states s2 = play_states s @ [Paused (Fin 0)]" "sources s2 = sources s"
        "in_flight s2 = removeAll t (in_flight s)"
        using True t by (simp_all add: s2_def)
      have cd: "cur_data s = None" using True t by (simp add: cur_data_eq)
      then have np: "\<not> is_playing s" by (simp add: is_playing_def cur_state_no_data)
      have cd2: "cur_data s2 = Some \<lparr>buffer = buf, state = length (play_states s)\<rparr>"
        using t by (simp add: cur_data_eq [of s2 t] f)
      have cs2: "cur_state s2 = Some (Paused (Fin 0))"
        by (simp add: cur_state_eq [OF cd2] deref_def f)
      have "refs_ok s2"
        unfolding refs_ok_def
      proof (intro conjI allI impI ballI)
        fix t' assume "track s2 = Some t'"
        then show "t' < length (tracks s2)" using t by (simp add: f)
      next
        fix st assume "cur_state_ref s2 = Some st"
        then show "st < length (play_states s2)" by (simp add: cur_state_eq [OF cd2] f)
      next
        fix t' assume "t' \<in> set (in_flight s2)"
        then have a: "t' \<noteq> t" "t' \<in> set (in_flight s)" by (simp_all add: f)
        then have "t' < length (tracks s)" "data (tracks s ! t') = None"
          using assms(1) by (simp_all add: engine_ok_def refs_ok_def)
        then show "t' < length (tracks s2)" "data (tracks s2 ! t') = None"
          using a(1) by (simp_all add: f)
      qed
      moreover have "listeners_ok s2"
        by (rule listeners_ok_grow [of s]) (use assms(1) in \<open>simp_all add: engine_ok_def f\<close>)
      moreover have "quiet s2" using wf_quiet [OF assms(1) np] by (simp add: quiet_def f)
      moreover have "\<not> is_playing s2" by (simp add: is_playing_def cs2)
      ultimately have "engine_ok s2" by (rule wf_not_playing)
      moreover have "loadFile t (Inr buf) ?s0 =
        (Inr (), sendEvent Timeupdate (sendEvent Canplaythrough (sendEvent Canplay
           (sendEvent Loadeddata s2))))"
        using True t by (simp add: loadFile_current [of _ t] s2_def)
      ultimately show ?thesis using Inr by simp
    qed
  qed
qed

lemma wf_settle: "engine_ok s \<Longrightarrow> engine_ok (settle t loaded s)"
proof (cases "t \<in> set (in_flight s)")
  case False
  assume "engine_ok s"
  with False show ?thesis by (simp add: settle_def)
next
  case True
  assume w: "engine_ok s"
  let ?s0 = "s\<lparr>in_flight := removeAll t (in_flight s)\<rparr>"
  obtain res s1 where l: "loadFile t loaded ?s0 = (res, s1)" by (cases "loadFile t loaded ?s0")
  with loadFile_wf [OF w True, of loaded] have w1: "engine_ok s1" by simp
  have a: "engine_ok (snd (loadAudioFile_settled t loaded ?s0))"
    using w1 by (cases res) (simp_all add: loadAudioFile_settled_def l)
  have b: "engine_ok (snd (set_src_settled t loaded ?s0))"
    using w1 by (cases res) (simp_all add: set_src_settled_def l)
  from w True have "t < length (tracks s)" by (simp add: engine_ok_def refs_ok_def)
  then have "settle t loaded s =
      (case source (tracks s ! t) of
         File f \<Rightarrow> snd (loadAudioFile_settled t loaded ?s0)
       | Src u \<Rightarrow> snd (set_src_settled t loaded ?s0))"
    using True by (simp add: settle_def deref_def Let_def)
  with a b show ?thesis by (simp split: track_source.splits)
qed


lemma mark_ended_frame:
  assumes "r < length (sources s)"
  shows "refs_ok (s\<lparr>sources := (sources s)[r := (sources s ! r)\<lparr>src_ended := True\<rparr>]\<rparr>)
           = refs_ok s"
    and "listeners_ok s \<Longrightarrow>
           listeners_ok (s\<lparr>sources := (sources s)[r := (sources s ! r)\<lparr>src_ended := True\<rparr>]\<rparr>)"
    and "cur_data (s\<lparr>sources := (sources s)[r := (sources s ! r)\<lparr>src_ended := True\<rparr>]\<rparr>)
           = cur_data s"
    and "cur_state_ref (s\<lparr>sources := (sources s)[r := (sources s ! r)\<lparr>src_ended := True\<rparr>]\<rparr>)
           = cur_state_ref s"
    and "cur_state (s\<lparr>sources := (sources s)[r := (sources s ! r)\<lparr>src_ended := True\<rparr>]\<rparr>)
           = cur_state s"
proof -
  let ?s = "s\<lparr>sources := (sources s)[r := (sources s ! r)\<lparr>src_ended := True\<rparr>]\<rparr>"
  note c = st_cong [of ?s s, simplified]
  show "cur_data ?s = cur_data s" "cur_state_ref ?s = cur_state_ref s"
    "cur_state ?s = cur_state s" by (rule c)+
  show "refs_ok ?s = refs_ok s" by (simp add: refs_ok_def c)
  show "listeners_ok ?s" if l: "listeners_ok s"
    unfolding listeners_ok_def
  proof (intro allI impI)
    fix i assume "i < length (sources ?s)"
    then have ilt: "i < length (sources s)" by simp
    with l obtain sti qi ei where a: "src_onended (sources s ! i) = [sti]"
      "deref (play_states s) sti = Some (Playing i qi ei)"
      unfolding listeners_ok_def by fastforce
    have "src_onended (sources ?s ! i) = [sti]"
      using a(1) ilt by (cases "i = r") simp_all
    with a(2) show "\<exists>st q e. src_onended (sources ?s ! i) = [st] \<and>
          deref (play_states ?s) st = Some (Playing i q e)" by simp
  qed
qed

lemma createTrackEndedListener_stale:
  "cur_state_ref s \<noteq> Some st \<Longrightarrow> createTrackEndedListener st s = s"
  by (simp add: createTrackEndedListener_def)

lemma createTrackEndedListener_fires:
  assumes "cur_state_ref s = Some st" "cur_state s = Some (Playing r False e)"
  shows "createTrackEndedListener st s = assign_state (Paused (Fin 0)) (sendEvent Ended s)"
proof -
  from assms have "deref (play_states s) st = Some (Playing r False e)"
    by (simp add: cur_state_def)
  with assms(1) show ?thesis by (simp add: createTrackEndedListener_def)
qed

lemma source_ended_eq:
  assumes "listeners_ok s" "r < length (sources s)" "\<not> src_ended (sources s ! r)"
  obtains st q e where "src_onended (sources s ! r) = [st]"
    "deref (play_states s) st = Some (Playing r q e)"
    "source_ended r s =
       createTrackEndedListener st
         (s\<lparr>sources := (sources s)[r := (sources s ! r)\<lparr>src_ended := True\<rparr>]\<rparr>)"
proof -
  from assms(1,2) obtain st q e where a: "src_onended (sources s ! r) = [st]"
      "deref (play_states s) st = Some (Playing r q e)"
    unfolding listeners_ok_def by fastforce
  have "source_ended r s =
       createTrackEndedListener st
         (s\<lparr>sources := (sources s)[r := (sources s ! r)\<lparr>src_ended := True\<rparr>]\<rparr>)"
    using assms(2,3) a(1) by (simp add: source_ended_def deref_def)
  with a show ?thesis by (rule that)
qed

lemma source_ended_current:
  assumes "engine_ok s" "cur_state_ref s = Some st" "cur_state s = Some (Playing r q e)"
  shows "engine_ok (source_ended r s)"
    and "event_log (source_ended r s) = event_log s @ [PreciseAudioEvent Ended]"
    and "cur_state (source_ended r s) = Some (Paused (Fin 0))"
    and "cur_state_ref (source_ended r s) = Some (length (play_states s))"
    and "length (sources (source_ended r s)) = length (sources s)"
proof -
  let ?s1 = "s\<lparr>sources := (sources s)[r := (sources s ! r)\<lparr>src_ended := True\<rparr>]\<rparr>"
  from assms(1,3) have pk: "\<not> q" "r < length (sources s)"
      "src_onended (sources s ! r) = [st]"
    using assms(2) by (simp_all add: engine_ok_def playing_ok_def)
  from assms(1,3) have act: "src_active (sources s ! r)"
      "\<forall>i < length (sources s). src_active (sources s ! i) \<longrightarrow> i = r"
    by (simp_all add: engine_ok_def one_active_playing)
  then have ne: "\<not> src_ended (sources s ! r)" by (simp add: src_active_def)
  from assms(1) have l: "listeners_ok s" by (simp add: engine_ok_def)
  note mf = mark_ended_frame [OF pk(2)]
  from source_ended_eq [OF l pk(2) ne] pk(3)
  have eq1: "source_ended r s = createTrackEndedListener st ?s1" by auto
  have "cur_state_ref ?s1 = Some st" "cur_state ?s1 = Some (Playing r False e)"
    using assms(2,3) pk(1) by (simp_all add: mf)
  then have eq: "source_ended r s = assign_state (Paused (Fin 0)) (sendEvent Ended ?s1)"
    unfolding eq1 by (rule createTrackEndedListener_fires)
  from assms(3) obtain d where d: "cur_data s = Some d" by (auto dest: cur_state_SomeD)
  then have d1: "cur_data (sendEvent Ended ?s1) = Some d" by (simp add: mf)
  note f = assign_state_fields [OF d1, where ps = "Paused (Fin 0)"]
  have q1: "quiet ?s1"
    unfolding quiet_def
  proof (intro allI impI)
    fix i assume "i < length (sources ?s1)"
    then have ilt: "i < length (sources s)" by simp
    show "\<not> src_active (sources ?s1 ! i)"
    proof (cases "i = r")
      case True
      with ilt show ?thesis by (simp add: src_active_def)
    next
      case False
      with act(2) ilt show ?thesis by auto
    qed
  qed
  have "refs_ok (sendEvent Ended ?s1)" "listeners_ok (sendEvent Ended ?s1)"
    "quiet (sendEvent Ended ?s1)"
    using assms(1) q1 l by (simp_all add: mf engine_ok_def)
  from install_paused [OF this d1]
  show "engine_ok (source_ended r s)" by (simp add: eq)
  show "event_log (source_ended r s) = event_log s @ [PreciseAudioEvent Ended]"
    "cur_state (source_ended r s) = Some (Paused (Fin 0))"
    "cur_state_ref (source_ended r s) = Some (length (play_states s))"
    "length (sources (source_ended r s)) = length (sources s)"
    by (simp_all add: eq f)
qed

lemma source_ended_other:
  assumes "engine_ok s" "\<And>q e. cur_state s \<noteq> Some (Playing r q e)"
  shows "engine_ok (source_ended r s)"
    and "event_log (source_ended r s) = event_log s"
    and "cur_state (source_ended r s) = cur_state s"
    and "cur_state_ref (source_ended r s) = cur_state_ref s"
proof -
  have "engine_ok (source_ended r s) \<and> event_log (source_ended r s) = event_log s
    \<and> cur_state (source_ended r s) = cur_state s
    \<and> cur_state_ref (source_ended r s) = cur_state_ref s"
  proof (cases "r < length (sources s) \<and> \<not> src_ended (sources s ! r)")
    case False
    then have "source_ended r s = s"
      by (auto simp: source_ended_def deref_def)
    with assms(1) show ?thesis by simp
  next
    case True
    let ?s1 = "s\<lparr>sources := (sources s)[r := (sources s ! r)\<lparr>src_ended := True\<rparr>]\<rparr>"
    from True have rlt: "r < length (sources s)" and ne: "\<not> src_ended (sources s ! r)"
      by simp_all
    from assms(1) have l: "listeners_ok s" by (simp add: engine_ok_def)
    note mf = mark_ended_frame [OF rlt]
    from source_ended_eq [OF l rlt ne]
    obtain st q e where a: "src_onended (sources s ! r) = [st]"
      "deref (play_states s) st = Some (Playing r q e)"
      "source_ended r s = createTrackEndedListener st ?s1" by blast
    have "cur_state_ref s \<noteq> Some st"
    proof
      assume "cur_state_ref s = Some st"
      with a(2) have "cur_state s = Some (Playing r q e)" by (simp add: cur_state_def)
      with assms(2) [of q e] show False by blast
    qed
    then have eq: "source_ended r s = ?s1"
      by (simp add: a(3) createTrackEndedListener_stale mf)
    have inact: "\<not> src_active (sources s ! r)"
    proof (cases "is_playing s")
      case False
      from wf_quiet [OF assms(1) this] rlt show ?thesis by (simp add: quiet_def)
    next
      case True
      then obtain r' q' e' where c: "cur_state s = Some (Playing r' q' e')"
        by (auto simp: is_playing_iff)
      with assms(2) [of q' e'] have "r' \<noteq> r" by blast
      moreover from assms(1) c
      have "\<forall>i < length (sources s). src_active (sources s ! i) \<longrightarrow> i = r'"
        by (simp add: engine_ok_def one_active_playing)
      ultimately show ?thesis using rlt by auto
    qed
    have same: "src_active ((sources s)[r := (sources s ! r)\<lparr>src_ended := True\<rparr>] ! i)
                  = src_active (sources s ! i)"
      if "i < length (sources s)" for i
      using that inact by (cases "i = r") (simp_all add: src_active_def)
    have w1: "engine_ok ?s1"
    proof (cases "is_playing s")
      case False
      then have "\<not> is_playing ?s1" by (simp add: is_playing_def mf)
      moreover have "quiet ?s1"
        using wf_quiet [OF assms(1) False] by (simp add: quiet_def same)
      moreover have "refs_ok ?s1" "listeners_ok ?s1"
        using assms(1) l by (simp_all add: mf engine_ok_def)
      ultimately show ?thesis by (simp add: wf_not_playing)
    next
      case True
      then obtain r' q' e' where c: "cur_state s = Some (Playing r' q' e')"
        by (auto simp: is_playing_iff)
      with assms(2) [of q' e'] have neq: "r' \<noteq> r" by blast
      have c1: "cur_state ?s1 = Some (Playing r' q' e')" by (simp add: mf c)
      from assms(1) c have pk: "\<not> q'" "r' < length (sources s)"
        "\<forall>st. cur_state_ref s = Some st \<longrightarrow> src_onended (sources s ! r') = [st]"
        by (simp_all add: engine_ok_def playing_ok_def)
      have "playing_ok ?s1"
        unfolding playing_ok_def using pk neq by (simp add: mf c)
      moreover have "one_active_source ?s1"
      proof -
        from assms(1) c have o: "src_active (sources s ! r')"
          "\<forall>i<length (sources s). src_active (sources s ! i) \<longrightarrow> i = r'"
          by (simp_all add: engine_ok_def one_active_playing)
        have "r' < length (sources ?s1)" using pk(2) by simp
        moreover have "src_active (sources ?s1 ! r')"
          using o(1) pk(2) same [of r'] by simp
        moreover have "\<forall>i<length (sources ?s1). src_active (sources ?s1 ! i) \<longrightarrow> i = r'"
          using o(2) same by simp
        ultimately show ?thesis unfolding one_active_playing [OF c1] by blast
      qed
      moreover have "anchor_consistent ?s1"
      proof -
        have dr: "deref ((sources s)[r := (sources s ! r)\<lparr>src_ended := True\<rparr>]) r'
                    = deref (sources s) r'"
          using neq by (simp add: deref_update)
        have pr: "playbackRate ?s1 = playbackRate s" by simp
        from assms(1) have "anchor_consistent s" by (simp add: engine_ok_def)
        then show ?thesis
          unfolding anchor_consistent_def c c1 pr by (simp add: dr)
      qed
      moreover have "refs_ok ?s1" "listeners_ok ?s1"
        using assms(1) l by (simp_all add: mf engine_ok_def)
      ultimately show ?thesis by (simp add: engine_ok_def)
    qed
    then show ?thesis by (simp add: eq mf)
  qed
  then show "engine_ok (source_ended r s)"
    and "event_log (source_ended r s) = event_log s"
    and "cur_state (source_ended r s) = cur_state s"
    and "cur_state_ref (source_ended r s) = cur_state_ref s"
    by simp_all
qed

lemma wf_source_ended: "engine_ok s \<Longrightarrow> engine_ok (source_ended r s)"
proof (cases "\<exists>q e. cur_state s = Some (Playing r q e)")
  case True
  assume w: "engine_ok s"
  from True obtain q e where c: "cur_state s = Some (Playing r q e)" by blast
  then obtain st where "cur_state_ref s = Some st"
    by (auto simp: cur_state_def split: Option.bind_splits)
  from source_ended_current(1) [OF w this c] show ?thesis .
next
  case False
  assume "engine_ok s"
  with False show ?thesis by (intro source_ended_other(1)) auto
qed

lemma wf_step: "engine_ok s \<Longrightarrow> engine_ok (step x s)"
  by (cases x)
    (simp_all add: wf_loadAudioFile wf_set_src wf_settle wf_set_volume wf_set_muted wf_play
      wf_pause wf_set_currentTime wf_set_adjustPitchWithPlaybackRate wf_set_playbackRate
      wf_source_ended wf_animation_frame wf_clock)

lemma wf_run: "engine_ok s \<Longrightarrow> engine_ok (run xs s)"
  by (induction xs arbitrary: s) (simp_all add: wf_step)

section \<open>Objects once replaced stay replaced\<close>

lemma advances_refl: "advances s s"
  by (simp add: advances_def)

lemma advances_same:
  assumes "advances s x" "track x' = track x" "tracks x' = tracks x"
    "play_states x' = play_states x"
  shows "advances s x'"
  using assms(1) st_cong(2) [OF assms(2,3,4)] by (simp add: advances_def assms)

lemma advances_assign_state:
  assumes "advances s x"
  shows "advances s (assign_state ps x)"
proof (cases "cur_data x")
  case None
  then have "assign_state ps x = x"
    by (auto simp: assign_state_def cur_data_def cur_track_def
        split: option.splits Option.bind_splits)
  with assms show ?thesis by simp
next
  case (Some d)
  note f = assign_state_fields [OF Some, where ps = ps]
  from assms have "length (play_states s) \<le> length (play_states x)"
    by (simp add: advances_def)
  with assms show ?thesis
    unfolding advances_def by (simp add: f)
qed

lemma advances_stopWithoutEnding:
  assumes "advances s x"
  shows "advances s (stopWithoutEnding st x)"
proof -
  have a: "track (stopWithoutEnding st x) = track x"
    "tracks (stopWithoutEnding st x) = tracks x"
    "length (play_states (stopWithoutEnding st x)) = length (play_states x)"
    by (simp_all add: stopWithoutEnding_def split: option.splits play_state.splits)
  then have "cur_state_ref (stopWithoutEnding st x) = cur_state_ref x"
    by (simp add: cur_state_ref_def cur_data_def cur_track_def)
  with assms a show ?thesis by (simp add: advances_def)
qed

lemma advances_frames:
  "advances s x \<Longrightarrow> advances s (sendEvent ev x)"
  "advances s x \<Longrightarrow> advances s (dispatchError err x)"
  "advances s x \<Longrightarrow> advances s (updateGain x)"
  "advances s x \<Longrightarrow> advances s (scheduleTimeUpdated x)"
  "advances s x \<Longrightarrow> advances s (resumeIfSuspended x)"
  by (simp_all add: advances_def)

lemma advances_stopIfPlaying: "advances s x \<Longrightarrow> advances s (stopIfPlaying x)"
  by (simp add: stopIfPlaying_def advances_stopWithoutEnding split: option.splits)

lemma advances_playFrom: "advances s x \<Longrightarrow> advances s (playFrom p x)"
proof (cases "cur_data x")
  case None
  assume "advances s x"
  with None show ?thesis by (simp add: playFrom_def)
next
  case (Some d)
  assume a: "advances s x"
  have "advances s (x\<lparr>sources := srcs\<rparr>)" for srcs
    using a by (rule advances_same) simp_all
  then show ?thesis
    unfolding playFrom_eq [OF Some]
    by (intro advances_frames advances_assign_state)
qed

lemma advances_play: "advances s x \<Longrightarrow> advances s (play x)"
  by (simp add: play_def Let_def advances_frames advances_playFrom
      split: option.splits play_state.splits)

lemma advances_pause: "advances s x \<Longrightarrow> advances s (pause x)"
  by (simp add: pause_def Let_def advances_frames advances_assign_state
      advances_stopWithoutEnding split: option.splits play_state.splits)

lemma advances_set_currentTime: "advances s x \<Longrightarrow> advances s (set_currentTime y x)"
proof -
  assume a: "advances s x"
  have "advances s (x\<lparr>play_states := (play_states x)[i := ps]\<rparr>)" for i ps
  proof -
    have "cur_state_ref (x\<lparr>play_states := (play_states x)[i := ps]\<rparr>) = cur_state_ref x"
      by (simp add: cur_state_ref_def cur_data_def cur_track_def)
    with a show ?thesis by (simp add: advances_def)
  qed
  with a show ?thesis
    by (simp add: set_currentTime_def Let_def advances_frames advances_playFrom
        advances_stopWithoutEnding split: option.splits play_state.splits)
qed

lemma advances_changeConfiguration:
  assumes "advances s x" "\<And>y. advances s y \<Longrightarrow> advances s (callback y)"
  shows "advances s (changeConfiguration callback x)"
  using assms by (simp add: changeConfiguration_def advances_play advances_pause)

lemma advances_set_playbackRate: "advances s x \<Longrightarrow> advances s (set_playbackRate k x)"
  unfolding set_playbackRate_def
  by (intro advances_frames advances_changeConfiguration) (auto elim: advances_same)

lemma advances_set_adjustPitchWithPlaybackRate:
  "advances s x \<Longrightarrow> advances s (set_adjustPitchWithPlaybackRate a x)"
  unfolding set_adjustPitchWithPlaybackRate_def
  by (intro advances_changeConfiguration) (auto elim: advances_same)

lemma advances_new_track:
  assumes "advances s x" "data tr = None"
  shows "advances s (x\<lparr>track := Some (length (tracks x)), tracks := tracks x @ [tr],
                       in_flight := fl\<rparr>)"
proof -
  let ?x = "x\<lparr>track := Some (length (tracks x)), tracks := tracks x @ [tr], in_flight := fl\<rparr>"
  have "cur_data ?x = None" using assms(2) by (simp add: cur_data_def cur_track_def deref_def)
  then have "cur_state_ref ?x = None" by (simp add: cur_state_no_data)
  with assms(1) show ?thesis by (simp add: advances_def)
qed

lemma advances_no_track:
  assumes "advances s x"
  shows "advances s (x\<lparr>track := None\<rparr>)"
proof -
  have "cur_data (x\<lparr>track := None\<rparr>) = None" by (simp add: cur_data_def cur_track_def)
  then have "cur_state_ref (x\<lparr>track := None\<rparr>) = None" by (simp add: cur_state_no_data)
  with assms(1) show ?thesis by (simp add: advances_def)
qed

lemma advances_loadAudioFile: "advances s x \<Longrightarrow> advances s (snd (loadAudioFile f x))"
  by (simp add: loadAudioFile_def Let_def advances_new_track advances_stopIfPlaying)

lemma advances_set_src: "advances s x \<Longrightarrow> advances s (set_src u x)"
  by (simp add: set_src_def Let_def advances_new_track advances_no_track
      advances_stopIfPlaying)

lemma advances_loadFile: "advances s x \<Longrightarrow> advances s (snd (loadFile t loaded x))"
proof (cases loaded)
  case (Inl e)
  assume "advances s x"
  with Inl show ?thesis by (simp add: loadFile_def)
next
  case (Inr buf)
  assume a: "advances s x"
  show ?thesis
  proof (cases "track x = Some t \<and> t < length (tracks x)")
    case False
    with a Inr show ?thesis by (auto simp: loadFile_def deref_def)
  next
    case True
    define x2 where "x2 = x\<lparr>tracks := (tracks x)[t := (tracks x ! t)\<lparr>data :=
                 Some \<lparr>buffer = buf, state = length (play_states x)\<rparr>\<rparr>],
           play_states := play_states x @ [Paused (Fin 0)]\<rparr>"
    have f: "track x2 = Some t" "length (tracks x2) = length (tracks x)"
      "tracks x2 ! t = (tracks x ! t)\<lparr>data :=
                 Some \<lparr>buffer = buf, state = length (play_states x)\<rparr>\<rparr>"
      "play_states x2 = play_states x @ [Paused (Fin 0)]"
      using True by (simp_all add: x2_def)
    have "cur_data x2 = Some \<lparr>buffer = buf, state = length (play_states x)\<rparr>"
      using True by (simp add: cur_data_eq [of x2 t] f)
    then have "cur_state_ref x2 = Some (length (play_states x))"
      by (simp add: cur_state_eq)
    with a True have "advances s x2" by (simp add: advances_def f)
    moreover have "snd (loadFile t loaded x) =
        sendEvent Timeupdate (sendEvent Canplaythrough (sendEvent Canplay
           (sendEvent Loadeddata x2)))"
      using True Inr by (simp add: loadFile_current [of _ t] x2_def)
    ultimately show ?thesis by (simp add: advances_frames)
  qed
qed

lemma advances_settle: "advances s x \<Longrightarrow> advances s (settle t loaded x)"
proof -
  assume a: "advances s x"
  let ?x0 = "x\<lparr>in_flight := removeAll t (in_flight x)\<rparr>"
  have a0: "advances s ?x0" using a by (rule advances_same) simp_all
  obtain res x1 where l: "loadFile t loaded ?x0 = (res, x1)" by (cases "loadFile t loaded ?x0")
  with advances_loadFile [OF a0, of t loaded] have a1: "advances s x1" by simp
  have "advances s (snd (loadAudioFile_settled t loaded ?x0))"
    using a1 by (cases res) (simp_all add: loadAudioFile_settled_def l advances_frames)
  moreover have "advances s (snd (set_src_settled t loaded ?x0))"
    using a1 by (cases res) (simp_all add: set_src_settled_def l advances_frames)
  ultimately show ?thesis using a a0
    by (simp add: settle_def Let_def split: option.splits track_source.splits)
qed

lemma advances_createTrackEndedListener:
  "advances s x \<Longrightarrow> advances s (createTrackEndedListener st x)"
  by (simp add: createTrackEndedListener_def advances_assign_state advances_frames
      split: option.splits play_state.splits)

lemma advances_fold_listeners:
  "advances s x \<Longrightarrow> advances s (fold createTrackEndedListener sts x)"
  by (induction sts arbitrary: x) (simp_all add: advances_createTrackEndedListener)

lemma advances_source_ended: "advances s x \<Longrightarrow> advances s (source_ended r x)"
proof -
  assume a: "advances s x"
  have "advances s (x\<lparr>sources := srcs\<rparr>)" for srcs
    using a by (rule advances_same) simp_all
  with a show ?thesis
    by (simp add: source_ended_def advances_fold_listeners split: option.splits)
qed

lemma advances_animation_frame: "advances s x \<Longrightarrow> advances s (animation_frame x)"
proof -
  assume a: "advances s x"
  have "advances s (x\<lparr>frame_pending := None\<rparr>)"
    using a by (rule advances_same) simp_all
  with a show ?thesis
    by (simp add: animation_frame_def timeUpdated_def Let_def advances_frames
        split: option.splits)
qed

lemma advances_set_volume: "advances s x \<Longrightarrow> advances s (set_volume v x)"
proof -
  assume a: "advances s x"
  have "advances s (x\<lparr>volume := k\<rparr>)" for k
    using a by (rule advances_same) simp_all
  with a show ?thesis by (simp add: set_volume_def Let_def advances_frames)
qed

lemma advances_set_muted: "advances s x \<Longrightarrow> advances s (set_muted m x)"
proof -
  assume a: "advances s x"
  have "advances s (x\<lparr>muted := k\<rparr>)" for k
    using a by (rule advances_same) simp_all
  with a show ?thesis by (simp add: set_muted_def advances_frames)
qed

lemma advances_step: "advances s x \<Longrightarrow> advances s (step y x)"
proof (cases y)
  case (Clock k)
  assume "advances s x"
  then have "advances s (x\<lparr>ctx_currentTime := k\<rparr>)" by (rule advances_same) simp_all
  with Clock show ?thesis by simp
qed (simp_all add: advances_loadAudioFile advances_set_src advances_settle advances_set_volume
      advances_set_muted advances_play advances_pause advances_set_currentTime
      advances_set_adjustPitchWithPlaybackRate advances_set_playbackRate
      advances_source_ended advances_animation_frame)

lemma advances_run: "advances s x \<Longrightarrow> advances s (run xs x)"
  by (induction xs arbitrary: x) (simp_all add: advances_step)


lemma advances_stale:
  assumes "advances s s'" "t < length (tracks s)" "track s \<noteq> Some t"
  shows "track s' \<noteq> Some t"
  using assms by (auto simp: advances_def)

section \<open>One playing state, one active source\<close>



text \<open>
  As long as no listener of the application calls the engine during a dispatch, every
  state the machine reaches from a fresh engine has at most one active buffer source,
  and one is active exactly when the current play state is a playing state, whose source
  it then is: a source is stopped before the play state that owns it is replaced. The
  anchor of a playing state is the one computed for its source at the engine's current
  playback rate.
\<close>

lemma one_active_source_reachable:
  "one_active_source (run xs (new_PreciseAudio t0 c))
   \<and> anchor_consistent (run xs (new_PreciseAudio t0 c))
   \<and> length (active_sources (run xs (new_PreciseAudio t0 c))) \<le> 1"
proof -
  let ?s = "run xs (new_PreciseAudio t0 c)"
  have "engine_ok ?s" by (rule wf_run) (rule wf_new)
  then have a: "one_active_source ?s" "anchor_consistent ?s" by (simp_all add: engine_ok_def)
  from a(1) have "length (active_sources ?s) \<le> 1"
    by (simp add: one_active_source_def split: option.splits play_state.splits)
  with a show ?thesis by simp
qed

text \<open>With a listener that does nothing, the delivery of \<open>ended\<close> is the step of the
  machine.\<close>

lemma createTrackEndedListener_with_id:
  "createTrackEndedListener_with (\<lambda>s. s) st s = createTrackEndedListener st s"
  by (simp add: createTrackEndedListener_with_def createTrackEndedListener_def
      sendEvent_with_def split: option.splits play_state.splits)

lemma source_ended_with_id: "source_ended_with (\<lambda>s. s) r s = source_ended r s"
proof -
  have "createTrackEndedListener_with (\<lambda>s. s) = createTrackEndedListener"
    by (intro ext) (rule createTrackEndedListener_with_id)
  then show ?thesis
    by (simp add: source_ended_with_def source_ended_def split: option.splits)
qed

text \<open>The engine after the source of the played file has ended, the application's
  listener for \<open>ended\<close> being \<open>() => { audio.currentTime = 0 }\<close>.\<close>

lemma seek_in_ended_eq:
  "source_ended_with (set_currentTime (Fin 0)) 0 played_engine =
     \<lparr> ctx_currentTime = Fin 10, ctx_state = Running, gain_value = Fin 1,
       animationFrameRequest = Some 1, frame_pending = Some 1, frame_next = 2,
       playbackRate = Fin 1, adjustPitchWithPlaybackRate = True,
       volume = Fin 1, muted = False,
       track = Some 0,
       tracks = [\<lparr>source = File 7,
                  data = Some \<lparr>buffer = \<lparr>buffer_duration = Fin 10\<rparr>, state = 3\<rparr>\<rparr>],
       play_states = [Paused (Fin 0), Playing 0 True (Fin 0), Playing 1 False (Fin 10000),
                      Paused (Fin 0)],
       sources = [\<lparr> src_playbackRate = Fin 1, src_route = ToGain,
                    src_buffer = \<lparr>buffer_duration = Fin 10\<rparr>,
                    src_startedAt = Fin 0, src_offset = Fin 0,
                    src_stopped = True, src_ended = True, src_onended = [1] \<rparr>,
                  \<lparr> src_playbackRate = Fin 1, src_route = ToGain,
                    src_buffer = \<lparr>buffer_duration = Fin 10\<rparr>,
                    src_startedAt = Fin 10, src_offset = Fin 0,
                    src_stopped = False, src_ended = False, src_onended = [2] \<rparr>],
       in_flight = [],
       event_log = [PreciseAudioEvent Loadeddata, PreciseAudioEvent Canplay,
                 PreciseAudioEvent Canplaythrough, PreciseAudioEvent Timeupdate,
                 PreciseAudioEvent Play, PreciseAudioEvent Ended,
                 PreciseAudioEvent Seeked] \<rparr>"
  by (simp add: played_engine_eq source_ended_with_def createTrackEndedListener_with_def
      sendEvent_with_def set_currentTime_def stopWithoutEnding_def
      cur_state_def cur_state_ref_def cur_data_def cur_track_def deref_def playFrom_def
      Let_def js_seq_def nowMillis_def js_sub_def assign_state_def scheduleTimeUpdated_def
      sendEvent_def)

text \<open>
  Claim C5. The claim fails when the application's listener for \<open>ended\<close> seeks. The
  listener of the source dispatches \<open>ended\<close> first and installs the paused state
  afterwards, where \<open>pause\<close>, \<open>play\<close>, the seek and the load install the new state
  before they dispatch their events. On the engine that has played its file to the end,
  a listener assigning \<open>currentTime = 0\<close> runs during that dispatch: the seek finds the
  state still playing and starts source 1 under a new playing state, and the listener of
  the source then replaces that state by the paused state at 0 without stopping source 1.
  The engine reports \<open>paused\<close> with a source active, and \<open>play\<close> starts source 2
  beside it: two sources are active. Without the application's listener the same
  delivery leaves no source active.
\<close>

theorem ended_listener_seeks:
  "one_active_source played_engine
   \<and> active_sources played_engine = [0]
   \<and> cur_state (source_ended_with (set_currentTime (Fin 0)) 0 played_engine)
        = Some (Paused (Fin 0))
   \<and> paused (source_ended_with (set_currentTime (Fin 0)) 0 played_engine)
   \<and> active_sources (source_ended_with (set_currentTime (Fin 0)) 0 played_engine) = [1]
   \<and> \<not> one_active_source (source_ended_with (set_currentTime (Fin 0)) 0 played_engine)
   \<and> cur_state (play (source_ended_with (set_currentTime (Fin 0)) 0 played_engine))
        = Some (Playing 2 False (Fin 10000))
   \<and> active_sources (play (source_ended_with (set_currentTime (Fin 0)) 0 played_engine))
        = [1, 2]
   \<and> source_ended 0 played_engine = source_ended_with (\<lambda>s. s) 0 played_engine
   \<and> active_sources (source_ended 0 played_engine) = []"
proof -
  have a: "one_active_source played_engine" "active_sources played_engine = [0]"
    by (simp_all add: played_engine_eq one_active_source_def active_sources_def src_active_def
        cur_state_def cur_state_ref_def cur_data_def cur_track_def deref_def)
  have b: "cur_state (source_ended_with (set_currentTime (Fin 0)) 0 played_engine)
        = Some (Paused (Fin 0))"
    "active_sources (source_ended_with (set_currentTime (Fin 0)) 0 played_engine) = [1]"
    by (simp_all add: seek_in_ended_eq active_sources_def src_active_def
        cur_state_def cur_state_ref_def cur_data_def cur_track_def deref_def upt_rec)
  then have c: "paused (source_ended_with (set_currentTime (Fin 0)) 0 played_engine)"
    "\<not> one_active_source (source_ended_with (set_currentTime (Fin 0)) 0 played_engine)"
    by (simp_all add: paused_def is_playing_def one_active_source_def)
  have d: "cur_state (play (source_ended_with (set_currentTime (Fin 0)) 0 played_engine))
        = Some (Playing 2 False (Fin 10000))"
    "active_sources (play (source_ended_with (set_currentTime (Fin 0)) 0 played_engine))
        = [1, 2]"
    by (simp_all add: seek_in_ended_eq play_def resumeIfSuspended_def
      cur_state_def cur_state_ref_def cur_data_def cur_track_def deref_def playFrom_def
      Let_def js_seq_def nowMillis_def js_sub_def assign_state_def scheduleTimeUpdated_def
      sendEvent_def active_sources_def src_active_def upt_rec)
  have e: "active_sources (source_ended 0 played_engine) = []"
    by (simp add: played_engine_eq source_ended_def createTrackEndedListener_def
      cur_state_def cur_state_ref_def cur_data_def cur_track_def deref_def
      Let_def assign_state_def sendEvent_def active_sources_def src_active_def)
  from a b c d e source_ended_with_id [of 0 played_engine] show ?thesis by simp
qed


section \<open>The ended event\<close>




section \<open>Superseded loads\<close>

lemma stopIfPlaying_tracks:
  "tracks (stopIfPlaying s) = tracks s" "event_log (stopIfPlaying s) = event_log s"
  "track (stopIfPlaying s) = track s"
  by (simp_all add: stopIfPlaying_def stopWithoutEnding_def
      split: option.splits play_state.splits)

lemma superseded:
  assumes "t < length (tracks s)"
  shows "track (snd (loadAudioFile f s)) \<noteq> Some t" "track (set_src u s) \<noteq> Some t"
    "t < length (tracks (snd (loadAudioFile f s)))" "t < length (tracks (set_src u s))"
  using assms by (simp_all add: loadAudioFile_def set_src_def Let_def stopIfPlaying_tracks)

lemma settle_stale:
  assumes "track s \<noteq> Some t"
  shows "tracks (settle t (Inr buf) s) = tracks s"
    "play_states (settle t (Inr buf) s) = play_states s"
    "event_log (settle t (Inr buf) s) = event_log s"
    "track (settle t (Inr buf) s) = track s"
  using assms
  by (simp_all add: settle_def Let_def loadAudioFile_settled_def set_src_settled_def
      loadFile_def split: option.splits track_source.splits)

text \<open>
  Once a later \<open>loadAudioFile\<close> or a later assignment of \<open>src\<close> has replaced a
  track, that track is never the current one again, whatever happens next. When its
  load then completes with a decoded buffer, \<open>loadFile\<close> finds another track current
  and writes nothing: the engine is left as it was, with no track data, no play state
  and no event. A load that completes for the track that is still current stores the
  buffer with a paused state at position 0 and dispatches \<open>loadeddata\<close>,
  \<open>canplay\<close>, \<open>canplaythrough\<close> and \<open>timeupdate\<close>.
\<close>

lemma stale_load_writes_nothing:
  assumes "t < length (tracks s)"
    and "s1 = snd (loadAudioFile f s) \<or> s1 = set_src u s"
  shows "track (run xs s1) \<noteq> Some t
     \<and> loadFile t (Inr buf) (run xs s1) = (Inr (), run xs s1)
     \<and> loadAudioFile_settled t (Inr buf) (run xs s1) = (Inr (), run xs s1)
     \<and> set_src_settled t (Inr buf) (run xs s1) = (Inr (), run xs s1)
     \<and> tracks (settle t (Inr buf) (run xs s1)) = tracks (run xs s1)
     \<and> play_states (settle t (Inr buf) (run xs s1)) = play_states (run xs s1)
     \<and> event_log (settle t (Inr buf) (run xs s1)) = event_log (run xs s1)
     \<and> (track s = Some t \<longrightarrow>
          cur_state (snd (loadFile t (Inr buf) s)) = Some (Paused (Fin 0))
          \<and> cur_data (snd (loadFile t (Inr buf) s))
              = Some \<lparr>buffer = buf, state = length (play_states s)\<rparr>
          \<and> event_log (snd (loadFile t (Inr buf) s)) =
              event_log s @ [PreciseAudioEvent Loadeddata, PreciseAudioEvent Canplay,
                             PreciseAudioEvent Canplaythrough, PreciseAudioEvent Timeupdate])"
proof -
  from assms have st: "track s1 \<noteq> Some t" "t < length (tracks s1)"
    using superseded [OF assms(1)] by auto
  have "advances s1 (run xs s1)" by (rule advances_run) (rule advances_refl)
  from advances_stale [OF this st(2,1)] have stale: "track (run xs s1) \<noteq> Some t" .
  note a = loadFile_stale [OF stale] settle_stale [OF stale]
  have cur: "cur_state (snd (loadFile t (Inr buf) s)) = Some (Paused (Fin 0))
          \<and> cur_data (snd (loadFile t (Inr buf) s))
              = Some \<lparr>buffer = buf, state = length (play_states s)\<rparr>
          \<and> event_log (snd (loadFile t (Inr buf) s)) =
              event_log s @ [PreciseAudioEvent Loadeddata, PreciseAudioEvent Canplay,
                             PreciseAudioEvent Canplaythrough, PreciseAudioEvent Timeupdate]"
    if tr: "track s = Some t"
  proof -
    define s2 where "s2 = s\<lparr>tracks := (tracks s)[t := (tracks s ! t)\<lparr>data :=
                 Some \<lparr>buffer = buf, state = length (play_states s)\<rparr>\<rparr>],
           play_states := play_states s @ [Paused (Fin 0)]\<rparr>"
    have f: "track s2 = Some t" "length (tracks s2) = length (tracks s)"
      "tracks s2 ! t = (tracks s ! t)\<lparr>data :=
                 Some \<lparr>buffer = buf, state = length (play_states s)\<rparr>\<rparr>"
      "play_states s2 = play_states s @ [Paused (Fin 0)]" "event_log s2 = event_log s"
      using tr assms(1) by (simp_all add: s2_def)
    have cd: "cur_data s2 = Some \<lparr>buffer = buf, state = length (play_states s)\<rparr>"
      using assms(1) by (simp add: cur_data_eq [of s2 t] f)
    have cs: "cur_state s2 = Some (Paused (Fin 0))"
      by (simp add: cur_state_eq [OF cd] f deref_def)
    have "snd (loadFile t (Inr buf) s) =
        sendEvent Timeupdate (sendEvent Canplaythrough (sendEvent Canplay
           (sendEvent Loadeddata s2)))"
      using tr assms(1) by (simp add: loadFile_current [of _ t] s2_def)
    then show ?thesis by (simp add: cd cs f)
  qed
  from stale a cur show ?thesis
    by (simp add: loadAudioFile_settled_def set_src_settled_def loadFile_Inl)
qed


lemma two_loads_eq:
  "two_loads =
     \<lparr> ctx_currentTime = Fin 0, ctx_state = Running, gain_value = Fin 1,
       animationFrameRequest = None, frame_pending = None, frame_next = 0,
       playbackRate = Fin 1, adjustPitchWithPlaybackRate = True,
       volume = Fin 1, muted = False,
       track = Some 1,
       tracks = [\<lparr>source = File 7, data = None\<rparr>, \<lparr>source = File 8, data = None\<rparr>],
       play_states = [], sources = [],
       in_flight = [0, 1],
       event_log = [] \<rparr>"
  by (simp add: two_loads_def new_PreciseAudio_def loadAudioFile_def stopIfPlaying_def
      cur_state_ref_def cur_data_def cur_track_def deref_def Let_def)

lemma two_srcs_eq:
  "two_srcs =
     \<lparr> ctx_currentTime = Fin 0, ctx_state = Running, gain_value = Fin 1,
       animationFrameRequest = None, frame_pending = None, frame_next = 0,
       playbackRate = Fin 1, adjustPitchWithPlaybackRate = True,
       volume = Fin 1, muted = False,
       track = Some 1,
       tracks = [\<lparr>source = Src ''a.mp3'', data = None\<rparr>,
                 \<lparr>source = Src ''b.mp3'', data = None\<rparr>],
       play_states = [], sources = [],
       in_flight = [0, 1],
       event_log = [] \<rparr>"
  by (simp add: two_srcs_def new_PreciseAudio_def set_src_def stopIfPlaying_def
      cur_state_ref_def cur_data_def cur_track_def deref_def Let_def)

text \<open>
  Claim C2. The claim fails when the superseded load fails. \<open>loadFile\<close> compares the
  track it was started for with the current one before it writes and dispatches, so a
  superseded load that succeeds leaves the engine alone. The handlers that catch a
  failure, in \<open>loadAudioFile\<close> and in the \<open>src\<close> setter, call \<open>dispatchError\<close>
  without that comparison. After two calls of \<open>loadAudioFile\<close>, or two assignments of
  \<open>src\<close>, the second track is the current one: when the first load then succeeds,
  nothing happens but that the load is no longer pending; when it fails, \<open>error\<close> is
  dispatched although the second track is current.
\<close>

theorem superseded_load_error:
  "track two_loads = Some 1 \<and> event_log two_loads = []
   \<and> step (Settle 0 (Inr \<lparr>buffer_duration = Fin 10\<rparr>)) two_loads
        = two_loads\<lparr>in_flight := [1]\<rparr>
   \<and> track (step (Settle 0 (Inl ''decode'')) two_loads) = Some 1
   \<and> event_log (step (Settle 0 (Inl ''decode'')) two_loads) = [ErrorEvent ''decode'']
   \<and> track two_srcs = Some 1 \<and> event_log two_srcs = []
   \<and> step (Settle 0 (Inr \<lparr>buffer_duration = Fin 10\<rparr>)) two_srcs
        = two_srcs\<lparr>in_flight := [1]\<rparr>
   \<and> track (step (Settle 0 (Inl ''fetch'')) two_srcs) = Some 1
   \<and> event_log (step (Settle 0 (Inl ''fetch'')) two_srcs) = [ErrorEvent ''fetch'']"
  by (simp add: two_loads_eq two_srcs_eq settle_def deref_def loadAudioFile_settled_def
      set_src_settled_def loadFile_def dispatchError_def Let_def)

section \<open>Changing the playback rate\<close>















end
